theory Spec2Isabelle
  imports Complex_Main
begin

section \<open>Data model\<close>

text \<open>
  The animation core of the scene: \<^verbatim>\<open>src/components/VoxelTree.tsx\<close> (the instanced
  voxels) and \<^verbatim>\<open>src/components/Scene.tsx\<close> (the discrete ornaments, the target
  generator of the ornaments and the lid orchestrator).

  JavaScript numbers are modelled as \<^typ>\<open>real\<close>: every statement below is about the
  exact arithmetic the code denotes, not about IEEE rounding.
\<close>

text \<open>\<^verbatim>\<open>export type AppMode = 'INITIAL' | 'SCATTERED' | 'TREE'\<close>\<close>

datatype AppMode = INITIAL | SCATTERED | TREE

text \<open>\<^verbatim>\<open>THREE.Vector3\<close>, \<^verbatim>\<open>THREE.Euler\<close> and \<^verbatim>\<open>THREE.Quaternion\<close> by their fields.\<close>

record vec3 =
  vx :: real
  vy :: real
  vz :: real

record euler =
  ex :: real
  ey :: real
  ez :: real

record quat =
  qx :: real
  qy :: real
  qz :: real
  qw :: real

text \<open>
  The two interpolation helpers of three.js that the frame callbacks call on numbers and
  on vectors. \<^verbatim>\<open>MathUtils.lerp(x, y, t)\<close> returns \<^verbatim>\<open>(1 - t) * x + t * y\<close>;
  \<^verbatim>\<open>Vector3.lerp(v, alpha)\<close> adds \<^verbatim>\<open>(v.c - this.c) * alpha\<close> to each component.
\<close>

definition lerp :: "real \<Rightarrow> real \<Rightarrow> real \<Rightarrow> real" where
  "lerp x y t = (1 - t) * x + t * y"

definition vlerp :: "vec3 \<Rightarrow> vec3 \<Rightarrow> real \<Rightarrow> vec3" where
  "vlerp p v alpha =
     \<lparr>vx = vx p + (vx v - vx p) * alpha,
      vy = vy p + (vy v - vy p) * alpha,
      vz = vz p + (vz v - vz p) * alpha\<rparr>"

text \<open>
  \<^verbatim>\<open>Quaternion.slerp\<close> and \<^verbatim>\<open>Quaternion.setFromEuler\<close> belong to three.js, not to
  this repository. The frame callbacks below take them as parameters \<open>slerp\<close> and
  \<open>fromEuler\<close>. The only facts about \<open>slerp\<close> that a statement below relies on are
  its two end points, which three.js fixes by early returns: factor 0 leaves the
  receiver as it is and factor 1 copies the argument.
\<close>

type_synonym slerp_fn = "quat \<Rightarrow> quat \<Rightarrow> real \<Rightarrow> quat"

definition slerp_ends :: "slerp_fn \<Rightarrow> bool" where
  "slerp_ends slerp \<longleftrightarrow> (\<forall>q r. slerp q r 0 = q \<and> slerp q r 1 = r)"

text \<open>A sample interpolation with these end points (component-wise), used to run the
  callbacks on concrete inputs.\<close>

definition qmix :: slerp_fn where
  "qmix q r t =
     \<lparr>qx = lerp (qx q) (qx r) t, qy = lerp (qy q) (qy r) t,
      qz = lerp (qz q) (qz r) t, qw = lerp (qw q) (qw r) t\<rparr>"

definition qid :: quat where
  "qid = \<lparr>qx = 0, qy = 0, qz = 0, qw = 1\<rparr>"

definition qconst :: "euler \<Rightarrow> quat" where
  "qconst e = qid"

section \<open>Voxels: the frame callback of VoxelTree\<close>

text \<open>One entry of \<^verbatim>\<open>instancesData\<close>.\<close>

record voxelTargets =
  v_treePos :: vec3
  v_scatterPos :: vec3
  v_initialPos :: vec3
  v_treeRot :: quat
  v_initialRot :: quat
  v_scatterRot :: quat

text \<open>
  The mutable state of voxel \<open>i\<close>: \<^verbatim>\<open>currentPositions[i]\<close>,
  \<^verbatim>\<open>currentQuaternions[i]\<close>, and the scale that the last
  \<^verbatim>\<open>setMatrixAt(i, dummy.matrix)\<close> wrote for it (0.2 after the layout effect).
\<close>

record voxel =
  curPos :: vec3
  curQuat :: quat
  drawnScale :: real

definition voxelStepSize :: "real \<Rightarrow> real" where
  "voxelStepSize delta = min 1 (delta * 2.5)"

definition voxelTargetPos :: "AppMode \<Rightarrow> voxelTargets \<Rightarrow> vec3" where
  "voxelTargetPos mode d =
     (if mode = SCATTERED then v_scatterPos d
      else if mode = INITIAL then v_initialPos d
      else v_treePos d)"

definition voxelTargetRot :: "AppMode \<Rightarrow> voxelTargets \<Rightarrow> quat" where
  "voxelTargetRot mode d =
     (if mode = SCATTERED then v_scatterRot d
      else if mode = INITIAL then v_initialRot d
      else v_treeRot d)"

definition voxelTargetScale :: "AppMode \<Rightarrow> real" where
  "voxelTargetScale mode = (if mode = INITIAL then 0.2 else (if mode = TREE then 1 else 0.8))"

text \<open>The body of the loop over \<open>i\<close> in \<^verbatim>\<open>useFrame\<close>.\<close>

definition voxelStep :: "slerp_fn \<Rightarrow> AppMode \<Rightarrow> real \<Rightarrow> voxelTargets \<Rightarrow> voxel \<Rightarrow> voxel" where
  "voxelStep slerp mode delta d v =
     (let step = voxelStepSize delta;
          targetPos = voxelTargetPos mode d;
          targetRot = voxelTargetRot mode d;
          p = curPos v;
          p' = (if mode = SCATTERED \<and> vy p < - 2
                then \<lparr>vx = lerp (vx p) 0 (step * 0.5),
                      vy = lerp (vy p) (vy targetPos) step,
                      vz = lerp (vz p) 0 (step * 0.5)\<rparr>
                else vlerp p targetPos step);
          q' = slerp (curQuat v) targetRot step;
          targetScale = voxelTargetScale mode
      in \<lparr>curPos = p', curQuat = q', drawnScale = targetScale\<rparr>)"

text \<open>
  The callback: nothing happens while \<^verbatim>\<open>meshRef.current\<close> is null; otherwise every
  voxel is stepped. The three arrays are maps of the same \<^verbatim>\<open>voxels\<close> array.
\<close>

definition voxelFrame ::
  "slerp_fn \<Rightarrow> bool \<Rightarrow> AppMode \<Rightarrow> real \<Rightarrow> voxelTargets list \<Rightarrow> voxel list \<Rightarrow> voxel list" where
  "voxelFrame slerp meshReady mode delta ds vs =
     (if \<not> meshReady then vs
      else map (\<lambda>(d, v). voxelStep slerp mode delta d v) (zip ds vs))"

section \<open>Ornaments: the frame callback of AnimatedOrnament\<close>

datatype ornType =
  camera | gift | star | snowman | topper | snowflake | goldTree | redBulb | yellowBulb

text \<open>\<^verbatim>\<open>OrnamentConfig\<close>. The type is \<open>None\<close> where JavaScript would read
  \<^verbatim>\<open>undefined\<close> from the table of types.\<close>

record ornamentConfig =
  o_id :: nat
  o_type :: "ornType option"
  o_treePos :: vec3
  o_treeRot :: euler
  o_scatterPos :: vec3
  o_scatterRot :: euler
  o_initialPos :: vec3
  o_scale :: real

text \<open>The \<^verbatim>\<open>THREE.Group\<close> behind \<^verbatim>\<open>groupRef\<close>: position, quaternion and scale
  vector.\<close>

record group3 =
  gPos :: vec3
  gQuat :: quat
  gScale :: vec3

definition setScalar :: "real \<Rightarrow> vec3" where
  "setScalar s = \<lparr>vx = s, vy = s, vz = s\<rparr>"

definition ornamentStepSize :: "real \<Rightarrow> real" where
  "ornamentStepSize delta = min 1 (delta * 3)"

definition ornamentTargetPos :: "AppMode \<Rightarrow> ornamentConfig \<Rightarrow> vec3" where
  "ornamentTargetPos mode c =
     (if mode = INITIAL then o_initialPos c
      else if mode = SCATTERED then o_scatterPos c
      else o_treePos c)"

definition ornamentTargetRot :: "AppMode \<Rightarrow> ornamentConfig \<Rightarrow> euler" where
  "ornamentTargetRot mode c =
     (if mode = INITIAL then o_scatterRot c
      else if mode = SCATTERED then o_scatterRot c
      else o_treeRot c)"

definition ornamentTargetScale :: "AppMode \<Rightarrow> ornamentConfig \<Rightarrow> real" where
  "ornamentTargetScale mode c =
     (if mode = INITIAL then 0.2
      else if mode = SCATTERED then o_scale c
      else o_scale c)"

definition ornamentStep ::
  "slerp_fn \<Rightarrow> (euler \<Rightarrow> quat) \<Rightarrow> AppMode \<Rightarrow> real \<Rightarrow> ornamentConfig \<Rightarrow> group3 \<Rightarrow> group3" where
  "ornamentStep slerp fromEuler mode delta c g =
     (let step = ornamentStepSize delta;
          targetPos = ornamentTargetPos mode c;
          targetRot = ornamentTargetRot mode c;
          targetScale = ornamentTargetScale mode c;
          p = gPos g;
          p' = (if mode = SCATTERED \<and> vy p < - 1
                then \<lparr>vx = lerp (vx p) 0 (step * 0.5),
                      vy = lerp (vy p) (vy targetPos) step,
                      vz = lerp (vz p) 0 (step * 0.5)\<rparr>
                else vlerp p targetPos step);
          q' = slerp (gQuat g) (fromEuler targetRot) step;
          currentScale = vx (gScale g);
          newScale = lerp currentScale targetScale step
      in \<lparr>gPos = p', gQuat = q', gScale = setScalar newScale\<rparr>)"

text \<open>The callback: \<^verbatim>\<open>if (!groupRef.current) return\<close>, then the step.\<close>

definition ornamentFrame ::
  "slerp_fn \<Rightarrow> (euler \<Rightarrow> quat) \<Rightarrow> AppMode \<Rightarrow> real \<Rightarrow> ornamentConfig
     \<Rightarrow> group3 option \<Rightarrow> group3 option" where
  "ornamentFrame slerp fromEuler mode delta c ref =
     (case ref of None \<Rightarrow> None
      | Some g \<Rightarrow> Some (ornamentStep slerp fromEuler mode delta c g))"

section \<open>Target generator of the ornaments\<close>

text \<open>
  The \<^verbatim>\<open>useMemo\<close> in \<^verbatim>\<open>Scene\<close> that builds the 90 ornament configurations. Each
  \<^verbatim>\<open>Math.random()\<close> call is an input: the draws of one loop iteration, in the order
  of the calls.
\<close>

record draws =
  r_type :: real
  r_sR :: real
  r_sTheta :: real
  r_sPhi :: real
  r_rotX :: real
  r_rotY :: real
  r_rotZ :: real
  r_initX :: real
  r_initY :: real
  r_initZ :: real
  r_scale :: real

definition types :: "ornType list" where
  "types =
     [camera, camera, camera, camera, camera, camera,
      gift, gift, gift, gift,
      snowman, snowman, snowman,
      star, star,
      snowflake, snowflake,
      goldTree, goldTree,
      redBulb, redBulb, redBulb,
      yellowBulb, yellowBulb, yellowBulb]"

definition count :: nat where
  "count = 90"

definition goldenAngle :: real where
  "goldenAngle = pi * (3 - sqrt 5)"

text \<open>\<^verbatim>\<open>types[Math.floor(Math.random() * types.length)]\<close>; an index outside the
  table reads \<^verbatim>\<open>undefined\<close>.\<close>

definition pickType :: "real \<Rightarrow> ornType option" where
  "pickType r =
     (let k = \<lfloor>r * real (length types)\<rfloor>
      in if 0 \<le> k \<and> nat k < length types then Some (types ! nat k) else None)"

definition topperConfig :: "real \<Rightarrow> real \<Rightarrow> real \<Rightarrow> ornamentConfig" where
  "topperConfig r1 r2 r3 =
     \<lparr>o_id = 0, o_type = Some topper,
      o_treePos = \<lparr>vx = 0, vy = 9.8, vz = 0\<rparr>,
      o_treeRot = \<lparr>ex = 0, ey = 0, ez = 0\<rparr>,
      o_scatterPos = \<lparr>vx = 0, vy = 15, vz = 0\<rparr>,
      o_scatterRot = \<lparr>ex = r1, ey = r2, ez = r3\<rparr>,
      o_initialPos = \<lparr>vx = 0, vy = - 5, vz = 0\<rparr>,
      o_scale = 1\<rparr>"

text \<open>The body of the loop \<^verbatim>\<open>for (let i = 1; i < count; i++)\<close>.\<close>

definition mkOrnament :: "nat \<Rightarrow> draws \<Rightarrow> ornamentConfig" where
  "mkOrnament i r =
     (let hProgress = real i / real count;
          y = - 5 + hProgress * 12;
          normalizedH = (y + 6) / 16;
          coneRadius = 6.8 * (1 - max 0 normalizedH);
          radius = coneRadius + 0.6;
          theta = real i * goldenAngle;
          x = radius * cos theta;
          z = radius * sin theta;
          treePos = \<lparr>vx = x, vy = y, vz = z\<rparr>;
          treeRot = \<lparr>ex = 0, ey = - theta, ez = 0\<rparr>;
          ty = pickType (r_type r);
          treeRot = (if ty = Some star \<or> ty = Some snowflake \<or> ty = Some goldTree
                     then treeRot\<lparr>ey := ey treeRot + pi / 2\<rparr> else treeRot);
          treeRot = (if ty = Some redBulb \<or> ty = Some yellowBulb
                     then treeRot\<lparr>ex := ex treeRot - pi / 4\<rparr> else treeRot);
          sR = 12 + r_sR r * 10;
          sTheta = r_sTheta r * pi * 2;
          sPhi = arccos (r_sPhi r * 2 - 1);
          scatterPos = \<lparr>vx = sR * sin sPhi * cos sTheta,
                        vy = sR * sin sPhi * sin sTheta,
                        vz = sR * cos sPhi\<rparr>;
          scatterRot = \<lparr>ex = r_rotX r * pi * 2, ey = r_rotY r * pi * 2, ez = r_rotZ r * pi * 2\<rparr>;
          initialPos = \<lparr>vx = (r_initX r - 0.5) * 2.5,
                         vy = - 5.5 + r_initY r * 2.5,
                         vz = (r_initZ r - 0.5) * 2.5\<rparr>;
          scale = 0.6 + r_scale r * 0.4;
          scale = (if ty = Some redBulb \<or> ty = Some yellowBulb then 0.8 else scale);
          scale = (if ty = Some camera then 1.1 else scale)
      in \<lparr>o_id = i, o_type = ty, o_treePos = treePos, o_treeRot = treeRot,
          o_scatterPos = scatterPos, o_scatterRot = scatterRot,
          o_initialPos = initialPos, o_scale = scale\<rparr>)"

text \<open>The whole list: the topper, then the iterations 1 to 89 with their draws.\<close>

definition ornaments :: "real \<Rightarrow> real \<Rightarrow> real \<Rightarrow> (nat \<Rightarrow> draws) \<Rightarrow> ornamentConfig list" where
  "ornaments r1 r2 r3 rnd = topperConfig r1 r2 r3 # map (\<lambda>i. mkOrnament i (rnd i)) [1..<count]"

section \<open>The lid orchestrator of Scene\<close>

text \<open>
  \<^verbatim>\<open>Scene\<close> keeps \<^verbatim>\<open>internalMode\<close> and \<^verbatim>\<open>isBoxOpen\<close> in React state and runs one
  effect with the dependencies \<^verbatim>\<open>[mode, internalMode]\<close>. The model makes the runtime
  explicit: the pending \<^verbatim>\<open>setTimeout\<close> entries of the host (a list, so that stale
  timers could pile up if the code let them), the handle that the clean-up closure of
  the last effect run captured, and the dependency values of the last effect run.
  Time is counted in whole milliseconds.
\<close>

datatype callback = CloseLid | SetInternal AppMode

record timer =
  t_handle :: nat
  t_remaining :: nat
  t_action :: callback

record scene =
  mode :: AppMode
  internalMode :: AppMode
  isBoxOpen :: bool
  timers :: "timer list"
  nextHandle :: nat
  cleanupArg :: "nat option"
  lastDeps :: "(AppMode \<times> AppMode) option"

text \<open>\<^verbatim>\<open>setTimeout(cb, ms)\<close> queues the callback and returns a fresh handle;
  \<^verbatim>\<open>clearTimeout(h)\<close> drops the entry with that handle and does nothing for
  \<^verbatim>\<open>undefined\<close> or a handle that is no longer pending.\<close>

definition setTimeout :: "callback \<Rightarrow> nat \<Rightarrow> scene \<Rightarrow> nat \<times> scene" where
  "setTimeout cb ms s =
     (nextHandle s,
      s\<lparr>timers := timers s @ [\<lparr>t_handle = nextHandle s, t_remaining = ms, t_action = cb\<rparr>],
        nextHandle := Suc (nextHandle s)\<rparr>)"

definition clearTimeout :: "nat option \<Rightarrow> scene \<Rightarrow> scene" where
  "clearTimeout h s =
     (case h of None \<Rightarrow> s
      | Some k \<Rightarrow> s\<lparr>timers := filter (\<lambda>t. t_handle t \<noteq> k) (timers s)\<rparr>)"

text \<open>
  The effect body. The tests read the \<^verbatim>\<open>mode\<close> and \<^verbatim>\<open>internalMode\<close> of the render
  that created the closure; the returned clean-up captures \<^verbatim>\<open>timeout\<close>, which stays
  \<^verbatim>\<open>undefined\<close> on the branch that sets no timer.
\<close>

definition effect :: "scene \<Rightarrow> scene" where
  "effect s =
     (if mode s = INITIAL then
        (let s1 = s\<lparr>internalMode := INITIAL\<rparr>;
             (h, s2) = setTimeout CloseLid 500 s1
         in s2\<lparr>cleanupArg := Some h\<rparr>)
      else
        (let s1 = s\<lparr>isBoxOpen := True\<rparr>
         in if internalMode s = INITIAL then
              (let (h, s2) = setTimeout (SetInternal (mode s)) 350 s1
               in s2\<lparr>cleanupArg := Some h\<rparr>)
            else s1\<lparr>internalMode := mode s, cleanupArg := None\<rparr>))"

text \<open>
  One render and commit: when a dependency differs from the last effect run (or there
  was none, at mount), React runs the previous clean-up and then the effect.
\<close>

definition rerender :: "scene \<Rightarrow> scene" where
  "rerender s =
     (if lastDeps s = Some (mode s, internalMode s) then s
      else effect ((clearTimeout (cleanupArg s) s)\<lparr>lastDeps := Some (mode s, internalMode s)\<rparr>))"

text \<open>
  A state update made by the effect schedules another render. Two rounds always reach
  a state that a further render leaves alone (lemma \<open>rerender_commit\<close>).
\<close>

definition commit :: "scene \<Rightarrow> scene" where
  "commit s = rerender (rerender s)"

text \<open>Mounting: \<^verbatim>\<open>useState('INITIAL')\<close> in \<^verbatim>\<open>App\<close> and in \<^verbatim>\<open>Scene\<close>,
  \<^verbatim>\<open>useState(false)\<close>, then the first effect run.\<close>

definition unmounted :: scene where
  "unmounted =
     \<lparr>mode = INITIAL, internalMode = INITIAL, isBoxOpen = False, timers = [],
      nextHandle = 0, cleanupArg = None, lastDeps = None\<rparr>"

definition mounted :: scene where
  "mounted = commit unmounted"

text \<open>\<^verbatim>\<open>setMode(m)\<close> of \<^verbatim>\<open>App\<close>, called by the buttons of the overlay.\<close>

definition setMode :: "AppMode \<Rightarrow> scene \<Rightarrow> scene" where
  "setMode m s = commit (s\<lparr>mode := m\<rparr>)"

text \<open>The two timer callbacks of the effect.\<close>

definition runCallback :: "callback \<Rightarrow> scene \<Rightarrow> scene" where
  "runCallback cb s =
     (case cb of CloseLid \<Rightarrow> s\<lparr>isBoxOpen := False\<rparr>
      | SetInternal m \<Rightarrow> s\<lparr>internalMode := m\<rparr>)"

text \<open>A due timer fires only if it is still pending: its entry is removed, the callback
  runs, and the resulting state is rendered.\<close>

definition fireDue :: "timer \<Rightarrow> scene \<Rightarrow> scene" where
  "fireDue t s =
     (if t_handle t \<in> set (map t_handle (timers s))
      then commit (runCallback (t_action t)
                     (s\<lparr>timers := filter (\<lambda>u. t_handle u \<noteq> t_handle t) (timers s)\<rparr>))
      else s)"

text \<open>One millisecond passes: every pending timer counts down, and those that reach
  zero fire in the order in which they were queued.\<close>

definition msTick :: "scene \<Rightarrow> scene" where
  "msTick s =
     (let ts = map (\<lambda>t. t\<lparr>t_remaining := t_remaining t - 1\<rparr>) (timers s);
          due = filter (\<lambda>t. t_remaining t = 0) ts
      in fold fireDue due (s\<lparr>timers := ts\<rparr>))"

fun elapse :: "nat \<Rightarrow> scene \<Rightarrow> scene" where
  "elapse 0 s = s"
| "elapse (Suc n) s = elapse n (msTick s)"

text \<open>A run of the scene: mode requests of the user and waiting times in between.\<close>

datatype event = Request AppMode | Wait nat

fun step :: "event \<Rightarrow> scene \<Rightarrow> scene" where
  "step (Request m) s = setMode m s"
| "step (Wait n) s = elapse n s"

definition run :: "event list \<Rightarrow> scene \<Rightarrow> scene" where
  "run es s = fold step es s"

section \<open>Notions used to state the properties\<close>

text \<open>
  The fountain rule in the words of the specification: it is active when the mode is
  \<open>SCATTERED\<close> and the current height is below the rim; while active, X and Z move
  toward 0 by half the step and Y moves toward the height of the scatter target by the
  full step; otherwise all three coordinates move toward the selected target by the
  full step.
\<close>

definition fountainActive :: "real \<Rightarrow> AppMode \<Rightarrow> vec3 \<Rightarrow> bool" where
  "fountainActive rim m p \<longleftrightarrow> m = SCATTERED \<and> vy p < rim"

definition specPosition :: "real \<Rightarrow> real \<Rightarrow> AppMode \<Rightarrow> vec3 \<Rightarrow> vec3 \<Rightarrow> vec3 \<Rightarrow> vec3" where
  "specPosition rim st m scatterTarget selected p =
     (if fountainActive rim m p
      then \<lparr>vx = vx p + (0 - vx p) * (st * 0.5),
            vy = vy p + (vy scatterTarget - vy p) * st,
            vz = vz p + (0 - vz p) * (st * 0.5)\<rparr>
      else \<lparr>vx = vx p + (vx selected - vx p) * st,
            vy = vy p + (vy selected - vy p) * st,
            vz = vz p + (vz selected - vz p) * st\<rparr>)"

text \<open>The horizontal distance of a point from the vertical axis.\<close>

definition hdist :: "vec3 \<Rightarrow> real" where
  "hdist p = sqrt ((vx p)\<^sup>2 + (vz p)\<^sup>2)"

text \<open>
  The scale of a group is read from its X component and written to all three. A new
  \<^verbatim>\<open>THREE.Group\<close> has scale (1, 1, 1), so the three components agree from the first
  frame on.
\<close>

definition uniformScale :: "group3 \<Rightarrow> bool" where
  "uniformScale g \<longleftrightarrow> vy (gScale g) = vx (gScale g) \<and> vz (gScale g) = vx (gScale g)"

definition newGroup :: group3 where
  "newGroup = \<lparr>gPos = \<lparr>vx = 0, vy = 0, vz = 0\<rparr>, gQuat = qid, gScale = \<lparr>vx = 1, vy = 1, vz = 1\<rparr>\<rparr>"

text \<open>Concrete inputs: a voxel resting at its INITIAL target inside the box, and the
  group of the topper resting at the INITIAL target of \<open>topperConfig\<close>.\<close>

definition sampleTargets :: voxelTargets where
  "sampleTargets =
     \<lparr>v_treePos = \<lparr>vx = 3, vy = 2, vz = - 1\<rparr>,
      v_scatterPos = \<lparr>vx = 10, vy = 12, vz = - 8\<rparr>,
      v_initialPos = \<lparr>vx = 1, vy = - 4, vz = 1\<rparr>,
      v_treeRot = qid,
      v_initialRot = \<lparr>qx = 1, qy = 0, qz = 0, qw = 0\<rparr>,
      v_scatterRot = \<lparr>qx = 0, qy = 1, qz = 0, qw = 0\<rparr>\<rparr>"

definition sampleVoxel :: voxel where
  "sampleVoxel = \<lparr>curPos = \<lparr>vx = 1, vy = - 4, vz = 1\<rparr>,
                  curQuat = \<lparr>qx = 1, qy = 0, qz = 0, qw = 0\<rparr>, drawnScale = 0.2\<rparr>"

definition topperGroup :: group3 where
  "topperGroup = \<lparr>gPos = \<lparr>vx = 0, vy = - 5, vz = 0\<rparr>, gQuat = qid, gScale = setScalar 0.2\<rparr>"

definition sampleDraws :: "real \<Rightarrow> draws" where
  "sampleDraws t =
     \<lparr>r_type = t, r_sR = 0.5, r_sTheta = 0.25, r_sPhi = 0.5, r_rotX = 0.1, r_rotY = 0.2,
      r_rotZ = 0.3, r_initX = 0.5, r_initY = 0.5, r_initZ = 0.5, r_scale = 0.5\<rparr>"

text \<open>
  The tree placement in the words of the specification: the height of ornament \<open>i\<close>,
  a radius that falls linearly with the height (0.6 outside a cone that is 6.8 wide at
  the base \<open>y = -6\<close> and closes at the tip \<open>y = 10\<close>), and the types that get a
  quarter turn.
\<close>

definition placementHeight :: "nat \<Rightarrow> real" where
  "placementHeight i = - 5 + (real i / 90) * 12"

definition placementRadius :: "real \<Rightarrow> real" where
  "placementRadius y = 0.6 + 6.8 * ((10 - y) / 16)"

definition quarterTurnType :: "ornType option \<Rightarrow> bool" where
  "quarterTurnType ty \<longleftrightarrow> ty = Some star \<or> ty = Some snowflake \<or> ty = Some goldTree"

text \<open>
  Invariants of the orchestrator. \<open>tracked\<close>: every pending timer is the one the
  clean-up closure holds. \<open>settled\<close>: the scene is quiescent (the last effect run saw
  the current dependencies) and is in one of four shapes: closed and idle; closing,
  with the one 500 ms timer pending; opening, with the one 350 ms timer for the
  requested mode pending; open and idle. \<open>pendingOnly\<close>: exactly one timer is
  pending, with the given callback, remaining time and a handle not below \<open>lo\<close>.
\<close>

definition tracked :: "scene \<Rightarrow> bool" where
  "tracked s \<longleftrightarrow> (\<forall>t \<in> set (timers s). cleanupArg s = Some (t_handle t))"

definition settled :: "scene \<Rightarrow> bool" where
  "settled s \<longleftrightarrow>
     lastDeps s = Some (mode s, internalMode s) \<and>
     (case timers s of
        [] \<Rightarrow> (if mode s = INITIAL then internalMode s = INITIAL \<and> \<not> isBoxOpen s
               else internalMode s = mode s \<and> isBoxOpen s)
      | [t] \<Rightarrow> cleanupArg s = Some (t_handle t) \<and> t_handle t < nextHandle s \<and>
               0 < t_remaining t \<and> internalMode s = INITIAL \<and>
               (if mode s = INITIAL then t_action t = CloseLid \<and> t_remaining t \<le> 500
                else t_action t = SetInternal (mode s) \<and> isBoxOpen s \<and> t_remaining t \<le> 350)
      | _ \<Rightarrow> False)"

definition pendingOnly :: "callback \<Rightarrow> nat \<Rightarrow> nat \<Rightarrow> scene \<Rightarrow> bool" where
  "pendingOnly cb ms lo s \<longleftrightarrow>
     (\<exists>h. lo \<le> h \<and> h < nextHandle s \<and>
          timers s = [\<lparr>t_handle = h, t_remaining = ms, t_action = cb\<rparr>] \<and> cleanupArg s = Some h)"

text \<open>
  The total waiting time of a run, and the two lag windows. \<open>notYetOpen r\<close>: the
  internal mode is \<open>INITIAL\<close> and, if an opening is requested, its timer has at
  least \<open>r\<close> milliseconds left. \<open>stillOpen r\<close>: the lid is open and, if closing is
  requested, its timer has at least \<open>r\<close> milliseconds left.
\<close>

fun waits :: "event list \<Rightarrow> nat" where
  "waits [] = 0"
| "waits (Request m # es) = waits es"
| "waits (Wait n # es) = n + waits es"

definition notYetOpen :: "nat \<Rightarrow> scene \<Rightarrow> bool" where
  "notYetOpen r s \<longleftrightarrow>
     settled s \<and> internalMode s = INITIAL \<and>
     (mode s \<noteq> INITIAL \<longrightarrow> (\<exists>t. timers s = [t] \<and> r \<le> t_remaining t))"

definition stillOpen :: "nat \<Rightarrow> scene \<Rightarrow> bool" where
  "stillOpen r s \<longleftrightarrow>
     settled s \<and> isBoxOpen s \<and>
     (mode s = INITIAL \<longrightarrow> (\<exists>t. timers s = [t] \<and> r \<le> t_remaining t))"

section \<open>The interpolator\<close>

lemma lerp_alt: "lerp x y t = x + (y - x) * t"
  by (simp add: lerp_def algebra_simps)

lemma voxelStep_curPos:
  "curPos (voxelStep slerp m delta d v) =
     specPosition (- 2) (voxelStepSize delta) m (v_scatterPos d) (voxelTargetPos m d) (curPos v)"
  by (simp add: voxelStep_def Let_def specPosition_def fountainActive_def lerp_alt vlerp_def
      voxelTargetPos_def)

lemma ornamentStep_gPos:
  "gPos (ornamentStep slerp fe m delta c g) =
     specPosition (- 1) (ornamentStepSize delta) m (o_scatterPos c) (ornamentTargetPos m c) (gPos g)"
  by (simp add: ornamentStep_def Let_def specPosition_def fountainActive_def lerp_alt vlerp_def
      ornamentTargetPos_def)

lemma voxelFrame_nth:
  "length ds = length vs \<Longrightarrow> i < length vs \<Longrightarrow>
   voxelFrame slerp True m delta ds vs ! i = voxelStep slerp m delta (ds ! i) (vs ! i)"
  by (simp add: voxelFrame_def)

lemma slerp_ends_qmix: "slerp_ends qmix"
  by (simp add: slerp_ends_def qmix_def lerp_def)

text \<open>
  Claim C1. At every tick the fountain override applies to an object exactly when the
  mode is \<open>SCATTERED\<close> and the current height of the object is below the rim (the
  constant \<open>-2\<close> for voxels, \<open>-1\<close> for ornaments). While it applies, X and Z are
  interpolated toward 0 with factor step times 0.5 and Y toward the Y of the scatter
  target with the full step; otherwise all three coordinates are interpolated toward
  the selected target with the full step. The new position is a function of the mode,
  the step, the targets and the current position only, whatever the earlier ticks
  were: no state is latched.
\<close>

theorem fountain_override_position:
  "(\<forall>i < length vs. length ds = length vs \<longrightarrow>
      curPos (voxelFrame slerp True m delta ds vs ! i) =
        specPosition (- 2) (voxelStepSize delta) m (v_scatterPos (ds ! i))
          (voxelTargetPos m (ds ! i)) (curPos (vs ! i)))
   \<and> map_option gPos (ornamentFrame slerp fe m delta c (Some g)) =
        Some (specPosition (- 1) (ornamentStepSize delta) m (o_scatterPos c)
          (ornamentTargetPos m c) (gPos g))"
  by (simp add: voxelFrame_nth voxelStep_curPos ornamentFrame_def ornamentStep_gPos)

theorem fountain_override_position_witness:
  "0 < length [sampleVoxel] \<and> length [sampleTargets] = length [sampleVoxel] \<and>
   curPos (voxelFrame qmix True SCATTERED 0.2 [sampleTargets] [sampleVoxel] ! 0) =
     \<lparr>vx = 0.75, vy = 4, vz = 0.75\<rparr> \<and>
   curPos (voxelFrame qmix True TREE 0.2 [sampleTargets] [sampleVoxel] ! 0) =
     \<lparr>vx = 2, vy = - 1, vz = 0\<rparr>"
  using fountain_override_position[of "[sampleVoxel]" "[sampleTargets]" qmix SCATTERED "0.2"]
    fountain_override_position[of "[sampleVoxel]" "[sampleTargets]" qmix TREE "0.2"]
  by (simp add: specPosition_def fountainActive_def voxelStepSize_def voxelTargetPos_def
      sampleTargets_def sampleVoxel_def)

lemma scale_targets:
  "voxelTargetScale m = (case m of INITIAL \<Rightarrow> 0.2 | SCATTERED \<Rightarrow> 0.8 | TREE \<Rightarrow> 1) \<and>
   ornamentTargetScale m c = (case m of INITIAL \<Rightarrow> 0.2 | SCATTERED \<Rightarrow> o_scale c | TREE \<Rightarrow> o_scale c)"
  by (cases m) (simp_all add: voxelTargetScale_def ornamentTargetScale_def)

lemma ornament_scale_lerped:
  "gScale (ornamentStep slerp fe m delta c g) =
     setScalar (lerp (vx (gScale g)) (ornamentTargetScale m c) (ornamentStepSize delta))"
  by (simp add: ornamentStep_def Let_def)

text \<open>
  Claim C2. For every object on every tick the scale target is selected from the
  internal mode, and the displayed scale is interpolated toward that target with
  factor step, for voxels and for ornaments alike. The targets are selected as the
  claim says (\<open>scale_targets\<close>) and the ornament callback interpolates
  (\<open>ornament_scale_lerped\<close>), but the voxel loop does not: it computes the same
  \<open>targetScale\<close> and writes it with \<open>setScalar\<close>. A voxel drawn at scale 0.2 and
  stepped for 0.1 s in mode \<open>TREE\<close> (step 0.25) should be drawn at the interpolated
  0.4; the code draws it at 1.
\<close>

theorem voxel_scale_snaps:
  "drawnScale sampleVoxel = 0.2 \<and> voxelTargetScale TREE = 1 \<and> voxelStepSize 0.1 = 0.25 \<and>
   lerp (drawnScale sampleVoxel) (voxelTargetScale TREE) (voxelStepSize 0.1) = 0.4 \<and>
   drawnScale (voxelStep qmix TREE 0.1 sampleTargets sampleVoxel) = 1"
  by (simp add: voxelStep_def Let_def voxelTargetScale_def voxelStepSize_def lerp_def
      sampleVoxel_def)

lemma voxelStepSize_bounds: "0 \<le> delta \<Longrightarrow> 0 \<le> voxelStepSize delta \<and> voxelStepSize delta \<le> 1"
  by (simp add: voxelStepSize_def)

lemma ornamentStepSize_bounds:
  "0 \<le> delta \<Longrightarrow> 0 \<le> ornamentStepSize delta \<and> ornamentStepSize delta \<le> 1"
  by (simp add: ornamentStepSize_def)

lemma voxelStepSize_one: "1 / 2.5 \<le> delta \<Longrightarrow> voxelStepSize delta = 1"
  by (simp add: voxelStepSize_def min_def)

lemma ornamentStepSize_one: "1 / 3 \<le> delta \<Longrightarrow> ornamentStepSize delta = 1"
  by (simp add: ornamentStepSize_def min_def)

text \<open>
  Claim C3 says that a tick with \<open>deltaTime \<ge> 1/rate\<close> puts the object exactly on the
  selected target. A voxel below the rim, stepped for one second in mode
  \<open>SCATTERED\<close>, does not arrive at its scatter target: the fountain override halves
  X and Z instead.
\<close>

theorem full_step_fountain_not_snapped:
  "1 / 2.5 \<le> (1::real) \<and>
   curPos (voxelStep qmix SCATTERED 1 sampleTargets sampleVoxel) \<noteq>
     voxelTargetPos SCATTERED sampleTargets"
  by (simp add: voxelStep_def Let_def voxelStepSize_def voxelTargetPos_def lerp_def
      sampleVoxel_def sampleTargets_def)

text \<open>
  Claim C3, amended. The interpolation factor is \<open>min 1 (deltaTime * rate)\<close> (rate 2.5
  for voxels, 3 for ornaments) and lies in \<open>[0, 1]\<close> for every \<open>deltaTime \<ge> 0\<close>. For
  \<open>deltaTime \<ge> 1/rate\<close> one tick puts orientation and scale on their targets, and
  the position on the selected target unless the fountain override applies; where it
  applies, Y is put on the Y of the scatter target and X and Z are halved.
\<close>

theorem step_clamp_and_snap:
  "voxelStepSize delta = min 1 (delta * 2.5) \<and> ornamentStepSize delta = min 1 (delta * 3) \<and>
   (0 \<le> delta \<longrightarrow> 0 \<le> voxelStepSize delta \<and> voxelStepSize delta \<le> 1 \<and>
                  0 \<le> ornamentStepSize delta \<and> ornamentStepSize delta \<le> 1) \<and>
   (slerp_ends slerp \<and> 1 / 2.5 \<le> delta \<longrightarrow>
      voxelStep slerp m delta d v =
        \<lparr>curPos = (if fountainActive (- 2) m (curPos v)
                   then \<lparr>vx = vx (curPos v) / 2, vy = vy (v_scatterPos d), vz = vz (curPos v) / 2\<rparr>
                   else voxelTargetPos m d),
         curQuat = voxelTargetRot m d, drawnScale = voxelTargetScale m\<rparr>) \<and>
   (slerp_ends slerp \<and> 1 / 3 \<le> delta \<longrightarrow>
      ornamentStep slerp fe m delta c g =
        \<lparr>gPos = (if fountainActive (- 1) m (gPos g)
                 then \<lparr>vx = vx (gPos g) / 2, vy = vy (o_scatterPos c), vz = vz (gPos g) / 2\<rparr>
                 else ornamentTargetPos m c),
         gQuat = fe (ornamentTargetRot m c), gScale = setScalar (ornamentTargetScale m c)\<rparr>)"
proof -
  have a: "voxelStep slerp m delta d v =
        \<lparr>curPos = (if fountainActive (- 2) m (curPos v)
                   then \<lparr>vx = vx (curPos v) / 2, vy = vy (v_scatterPos d), vz = vz (curPos v) / 2\<rparr>
                   else voxelTargetPos m d),
         curQuat = voxelTargetRot m d, drawnScale = voxelTargetScale m\<rparr>"
    if "slerp_ends slerp" "1 / 2.5 \<le> delta"
    using that voxelStepSize_one[of delta]
    by (simp add: voxelStep_def Let_def slerp_ends_def fountainActive_def lerp_def vlerp_def
        voxelTargetPos_def)
  have b: "ornamentStep slerp fe m delta c g =
        \<lparr>gPos = (if fountainActive (- 1) m (gPos g)
                 then \<lparr>vx = vx (gPos g) / 2, vy = vy (o_scatterPos c), vz = vz (gPos g) / 2\<rparr>
                 else ornamentTargetPos m c),
         gQuat = fe (ornamentTargetRot m c), gScale = setScalar (ornamentTargetScale m c)\<rparr>"
    if "slerp_ends slerp" "1 / 3 \<le> delta"
    using that ornamentStepSize_one[of delta]
    by (simp add: ornamentStep_def Let_def slerp_ends_def fountainActive_def lerp_def vlerp_def
        ornamentTargetPos_def)
  from a b voxelStepSize_bounds[of delta] ornamentStepSize_bounds[of delta]
  show ?thesis by (simp add: voxelStepSize_def ornamentStepSize_def)
qed

theorem step_clamp_and_snap_witness:
  "slerp_ends qmix \<and> (0::real) \<le> 1 \<and> 1 / 2.5 \<le> (1::real) \<and> voxelStepSize 1 = 1 \<and>
   voxelStep qmix TREE 1 sampleTargets sampleVoxel =
     \<lparr>curPos = v_treePos sampleTargets, curQuat = v_treeRot sampleTargets, drawnScale = 1\<rparr> \<and>
   curPos (voxelStep qmix SCATTERED 1 sampleTargets sampleVoxel) = \<lparr>vx = 0.5, vy = 12, vz = 0.5\<rparr>"
  using step_clamp_and_snap[where slerp = qmix and delta = 1 and m = TREE
      and d = sampleTargets and v = sampleVoxel]
    step_clamp_and_snap[where slerp = qmix and delta = 1 and m = SCATTERED
      and d = sampleTargets and v = sampleVoxel]
    slerp_ends_qmix
  by (simp add: fountainActive_def voxelTargetPos_def voxelTargetRot_def voxelTargetScale_def
      sampleTargets_def sampleVoxel_def)

lemma hdist_scale:
  assumes "0 \<le> k"
  shows "hdist \<lparr>vx = k * x, vy = y, vz = k * z\<rparr> = k * sqrt (x\<^sup>2 + z\<^sup>2)"
proof -
  have "(k * x)\<^sup>2 + (k * z)\<^sup>2 = k\<^sup>2 * (x\<^sup>2 + z\<^sup>2)" by (simp add: algebra_simps)
  then show ?thesis using assms by (simp add: hdist_def real_sqrt_mult)
qed

lemma fountain_hdist:
  assumes "0 < st" "st \<le> 1"
  shows "hdist \<lparr>vx = lerp x 0 (st * 0.5), vy = y, vz = lerp z 0 (st * 0.5)\<rparr> =
           (1 - st / 2) * sqrt (x\<^sup>2 + z\<^sup>2)"
proof -
  have "lerp x 0 (st * 0.5) = (1 - st / 2) * x" "lerp z 0 (st * 0.5) = (1 - st / 2) * z"
    by (simp_all add: lerp_def)
  moreover have "0 \<le> 1 - st / 2" using assms by simp
  ultimately show ?thesis by (simp add: hdist_scale)
qed

lemma voxelStepSize_pos: "0 < delta \<Longrightarrow> 0 < voxelStepSize delta \<and> voxelStepSize delta \<le> 1"
  by (simp add: voxelStepSize_def)

lemma ornamentStepSize_pos: "0 < delta \<Longrightarrow> 0 < ornamentStepSize delta \<and> ornamentStepSize delta \<le> 1"
  by (simp add: ornamentStepSize_def)

lemma shrink_facts:
  fixes h :: real
  assumes "0 < st" "st \<le> 1" "0 \<le> h"
  shows "(1 - st / 2) * h \<le> h \<and> (h \<noteq> 0 \<longrightarrow> (1 - st / 2) * h < h) \<and> h / 2 \<le> (1 - st / 2) * h"
proof -
  have "(1 - st / 2) * h = h - st * h / 2" by (simp add: algebra_simps)
  moreover have "0 \<le> st * h" using assms by simp
  moreover have "h \<noteq> 0 \<Longrightarrow> 0 < st * h" using assms by simp
  moreover have "st * h \<le> h" using assms by (simp add: mult_left_le_one_le)
  ultimately show ?thesis by auto
qed

lemma voxel_fountain_hdist:
  assumes "0 < delta" "fountainActive (- 2) m (curPos v)"
  shows "hdist (curPos (voxelStep slerp m delta d v)) =
           (1 - voxelStepSize delta / 2) * hdist (curPos v)"
  using assms fountain_hdist[OF voxelStepSize_pos[OF assms(1), THEN conjunct1]
      voxelStepSize_pos[OF assms(1), THEN conjunct2]]
  by (simp add: voxelStep_def Let_def fountainActive_def hdist_def)

lemma ornament_fountain_hdist:
  assumes "0 < delta" "fountainActive (- 1) m (gPos g)"
  shows "hdist (gPos (ornamentStep slerp fe m delta c g)) =
           (1 - ornamentStepSize delta / 2) * hdist (gPos g)"
  using assms fountain_hdist[OF ornamentStepSize_pos[OF assms(1), THEN conjunct1]
      ornamentStepSize_pos[OF assms(1), THEN conjunct2]]
  by (simp add: ornamentStep_def Let_def fountainActive_def hdist_def)

lemma hdist_nonneg: "0 \<le> hdist p"
  by (simp add: hdist_def)

text \<open>
  Claim C8 says that one tick below the rim in mode \<open>SCATTERED\<close> strictly decreases
  the horizontal distance from the axis. The topper starts on the axis, at
  \<open>(0, -5, 0)\<close>: its distance is 0 before and after the tick.
\<close>

theorem fountain_on_axis_not_strict:
  "0 < (0.016::real) \<and> fountainActive (- 1) SCATTERED (gPos topperGroup) \<and>
   \<not> hdist (gPos (ornamentStep qmix qconst SCATTERED 0.016 (topperConfig 0 0 0) topperGroup))
       < hdist (gPos topperGroup)"
  by (simp add: fountainActive_def topperGroup_def ornamentStep_def Let_def hdist_def lerp_def)

text \<open>
  Claim C8, amended. For an object below the rim in mode \<open>SCATTERED\<close>, one tick with
  positive \<open>deltaTime\<close> multiplies the horizontal distance from the axis by
  \<open>1 - step / 2\<close>, whatever the scatter target is: the distance never grows, and it
  strictly decreases whenever the object is off the axis.
\<close>

theorem fountain_damps_horizontal:
  "(0 < delta \<and> fountainActive (- 2) m (curPos v) \<longrightarrow>
      hdist (curPos (voxelStep slerp m delta d v)) = (1 - voxelStepSize delta / 2) * hdist (curPos v) \<and>
      hdist (curPos (voxelStep slerp m delta d v)) \<le> hdist (curPos v) \<and>
      (hdist (curPos v) \<noteq> 0 \<longrightarrow> hdist (curPos (voxelStep slerp m delta d v)) < hdist (curPos v))) \<and>
   (0 < delta \<and> fountainActive (- 1) m (gPos g) \<longrightarrow>
      hdist (gPos (ornamentStep slerp fe m delta c g)) = (1 - ornamentStepSize delta / 2) * hdist (gPos g) \<and>
      hdist (gPos (ornamentStep slerp fe m delta c g)) \<le> hdist (gPos g) \<and>
      (hdist (gPos g) \<noteq> 0 \<longrightarrow> hdist (gPos (ornamentStep slerp fe m delta c g)) < hdist (gPos g)))"
proof -
  have a: "hdist (curPos (voxelStep slerp m delta d v)) = (1 - voxelStepSize delta / 2) * hdist (curPos v) \<and>
      hdist (curPos (voxelStep slerp m delta d v)) \<le> hdist (curPos v) \<and>
      (hdist (curPos v) \<noteq> 0 \<longrightarrow> hdist (curPos (voxelStep slerp m delta d v)) < hdist (curPos v))"
    if h: "0 < delta" "fountainActive (- 2) m (curPos v)"
    using voxel_fountain_hdist[OF h, of slerp d] voxelStepSize_pos[OF h(1)]
      shrink_facts[of "voxelStepSize delta" "hdist (curPos v)"] hdist_nonneg[of "curPos v"]
    by simp
  have b: "hdist (gPos (ornamentStep slerp fe m delta c g)) = (1 - ornamentStepSize delta / 2) * hdist (gPos g) \<and>
      hdist (gPos (ornamentStep slerp fe m delta c g)) \<le> hdist (gPos g) \<and>
      (hdist (gPos g) \<noteq> 0 \<longrightarrow> hdist (gPos (ornamentStep slerp fe m delta c g)) < hdist (gPos g))"
    if h: "0 < delta" "fountainActive (- 1) m (gPos g)"
    using ornament_fountain_hdist[OF h, of slerp fe c] ornamentStepSize_pos[OF h(1)]
      shrink_facts[of "ornamentStepSize delta" "hdist (gPos g)"] hdist_nonneg[of "gPos g"]
    by simp
  from a b show ?thesis by blast
qed

theorem fountain_damps_horizontal_witness:
  "0 < (0.2::real) \<and> fountainActive (- 2) SCATTERED (curPos sampleVoxel) \<and>
   hdist (curPos sampleVoxel) \<noteq> 0 \<and>
   hdist (curPos (voxelStep qmix SCATTERED 0.2 sampleTargets sampleVoxel))
     < hdist (curPos sampleVoxel)"
proof -
  have h: "0 < (0.2::real) \<and> fountainActive (- 2) SCATTERED (curPos sampleVoxel)"
    by (simp add: fountainActive_def sampleVoxel_def)
  have n: "hdist (curPos sampleVoxel) \<noteq> 0"
    by (simp add: hdist_def sampleVoxel_def)
  from fountain_damps_horizontal[where delta = "0.2" and m = SCATTERED and v = sampleVoxel
      and slerp = qmix and d = sampleTargets] h n
  show ?thesis by blast
qed

lemma voxelStep_zero:
  assumes "slerp_ends slerp"
  shows "curPos (voxelStep slerp m 0 d v) = curPos v \<and> curQuat (voxelStep slerp m 0 d v) = curQuat v"
  using assms
  by (simp add: voxelStep_def Let_def voxelStepSize_def slerp_ends_def lerp_def vlerp_def)

lemma ornamentStep_zero:
  assumes "slerp_ends slerp"
  shows "gPos (ornamentStep slerp fe m 0 c g) = gPos g \<and>
         gQuat (ornamentStep slerp fe m 0 c g) = gQuat g \<and>
         gScale (ornamentStep slerp fe m 0 c g) = setScalar (vx (gScale g))"
  using assms
  by (simp add: ornamentStep_def Let_def ornamentStepSize_def slerp_ends_def lerp_def vlerp_def)

lemma uniformScale_newGroup: "uniformScale newGroup"
  by (simp add: uniformScale_def newGroup_def)

lemma uniformScale_ornamentStep: "uniformScale (ornamentStep slerp fe m delta c g)"
  by (simp add: uniformScale_def ornamentStep_def Let_def setScalar_def)

lemma uniformScale_setScalar: "uniformScale g \<Longrightarrow> setScalar (vx (gScale g)) = gScale g"
  by (cases g, cases "gScale g") (simp add: uniformScale_def setScalar_def)

lemma voxelFrame_zero:
  assumes "slerp_ends slerp" "length ds = length vs"
  shows "map curPos (voxelFrame slerp b m 0 ds vs) = map curPos vs \<and>
         map curQuat (voxelFrame slerp b m 0 ds vs) = map curQuat vs"
  using assms(2)
proof (induction ds vs rule: list_induct2)
  case Nil
  then show ?case by (simp add: voxelFrame_def)
next
  case (Cons d ds v vs)
  then show ?case using voxelStep_zero[OF assms(1)] by (simp add: voxelFrame_def split: if_splits)
qed

text \<open>
  Claim C10. In every mode a tick with \<open>deltaTime = 0\<close> leaves the current position
  and orientation of every voxel unchanged, and leaves position, orientation and scale
  of an ornament's group unchanged, in the fountain branch and in the standard branch
  alike. (The scale vector of a group has equal components: see \<open>uniformScale\<close>.)
\<close>

theorem zero_delta_identity:
  "slerp_ends slerp \<longrightarrow>
     (length ds = length vs \<longrightarrow>
        map curPos (voxelFrame slerp b m 0 ds vs) = map curPos vs \<and>
        map curQuat (voxelFrame slerp b m 0 ds vs) = map curQuat vs) \<and>
     (uniformScale g \<longrightarrow> ornamentFrame slerp fe m 0 c (Some g) = Some g) \<and>
     ornamentFrame slerp fe m 0 c None = None"
proof
  assume se: "slerp_ends slerp"
  have "ornamentStep slerp fe m 0 c g = g" if "uniformScale g"
    using ornamentStep_zero[OF se, of fe m c g] uniformScale_setScalar[OF that]
    by (intro group3.equality) simp_all
  then show "(length ds = length vs \<longrightarrow>
        map curPos (voxelFrame slerp b m 0 ds vs) = map curPos vs \<and>
        map curQuat (voxelFrame slerp b m 0 ds vs) = map curQuat vs) \<and>
     (uniformScale g \<longrightarrow> ornamentFrame slerp fe m 0 c (Some g) = Some g) \<and>
     ornamentFrame slerp fe m 0 c None = None"
    using voxelFrame_zero[OF se] by (simp add: ornamentFrame_def)
qed

theorem zero_delta_identity_witness:
  "slerp_ends qmix \<and> uniformScale topperGroup \<and>
   length [sampleTargets] = length [sampleVoxel] \<and>
   map curPos (voxelFrame qmix True SCATTERED 0 [sampleTargets] [sampleVoxel]) =
     [curPos sampleVoxel] \<and>
   ornamentFrame qmix qconst SCATTERED 0 (topperConfig 0 0 0) (Some topperGroup) =
     Some topperGroup"
proof -
  have u: "uniformScale topperGroup"
    by (simp add: uniformScale_def topperGroup_def setScalar_def)
  from zero_delta_identity[where slerp = qmix and ds = "[sampleTargets]" and vs = "[sampleVoxel]"
      and b = True and m = SCATTERED and g = topperGroup and fe = qconst
      and c = "topperConfig 0 0 0"] slerp_ends_qmix u
  show ?thesis by simp
qed

section \<open>The tree placement of the ornaments\<close>

lemma placementHeight_low: "1 \<le> i \<Longrightarrow> - 5 < placementHeight i"
  by (simp add: placementHeight_def)

lemma cone_radius:
  assumes "- 5 < y"
  shows "6.8 * (1 - max 0 ((y + 6) / 16)) + 0.6 = placementRadius y"
proof -
  have "0 \<le> (y + 6) / 16" using assms by simp
  then have "max 0 ((y + 6) / 16) = (y + 6) / 16" by (rule max_absorb2)
  then show ?thesis unfolding placementRadius_def by (simp add: field_simps)
qed

lemma mkOrnament_treePos_raw:
  "o_treePos (mkOrnament i r) =
     \<lparr>vx = (6.8 * (1 - max 0 ((placementHeight i + 6) / 16)) + 0.6) * cos (real i * goldenAngle),
      vy = placementHeight i,
      vz = (6.8 * (1 - max 0 ((placementHeight i + 6) / 16)) + 0.6) * sin (real i * goldenAngle)\<rparr>"
  by (simp add: mkOrnament_def Let_def count_def placementHeight_def)

lemma mkOrnament_treePos:
  assumes "1 \<le> i"
  shows "o_treePos (mkOrnament i r) =
     \<lparr>vx = placementRadius (placementHeight i) * cos (real i * goldenAngle),
      vy = placementHeight i,
      vz = placementRadius (placementHeight i) * sin (real i * goldenAngle)\<rparr>"
  unfolding mkOrnament_treePos_raw cone_radius[OF placementHeight_low[OF assms]] ..

lemma mkOrnament_yaw:
  "ey (o_treeRot (mkOrnament i r)) =
     - (real i * goldenAngle) + (if quarterTurnType (o_type (mkOrnament i r)) then pi / 2 else 0)"
  by (simp add: mkOrnament_def Let_def quarterTurnType_def)

lemma mkOrnament_type: "o_type (mkOrnament i r) = pickType (r_type r)"
  by (simp add: mkOrnament_def Let_def)

lemma placementRadius_antimono: "y < y' \<Longrightarrow> placementRadius y' < placementRadius y"
  by (simp add: placementRadius_def field_simps)

lemma placementHeight_mono: "i < j \<Longrightarrow> placementHeight i < placementHeight j"
  by (simp add: placementHeight_def)

lemma hdist_polar: "0 \<le> \<rho> \<Longrightarrow> hdist \<lparr>vx = \<rho> * cos t, vy = y, vz = \<rho> * sin t\<rparr> = \<rho>"
proof -
  assume "0 \<le> \<rho>"
  have "(\<rho> * cos t)\<^sup>2 + (\<rho> * sin t)\<^sup>2 = \<rho>\<^sup>2 * ((cos t)\<^sup>2 + (sin t)\<^sup>2)"
    by (simp only: power_mult_distrib distrib_left)
  also have "\<dots> = \<rho>\<^sup>2" by (simp only: cos_squared_eq) simp
  finally show ?thesis using \<open>0 \<le> \<rho>\<close> by (simp add: hdist_def)
qed

lemma placementRadius_pos: "i < count \<Longrightarrow> 0 < placementRadius (placementHeight i)"
proof -
  assume "i < count"
  then have "real i < 90" by (simp add: count_def)
  then have "placementHeight i < 7" by (simp add: placementHeight_def)
  then show ?thesis by (simp add: placementRadius_def field_simps)
qed

lemma mkOrnament_hdist:
  assumes "1 \<le> i" "i < count"
  shows "hdist (o_treePos (mkOrnament i r)) = placementRadius (placementHeight i)"
  using placementRadius_pos[OF assms(2)] by (simp add: mkOrnament_treePos[OF assms(1)] hdist_polar)

lemma length_types: "length types = 25"
  by (simp add: types_def)

lemma arctan_term_mono:
  fixes x :: real
  assumes "0 \<le> x" "x \<le> 1"
  shows "1 / real (Suc n * 2 + 1) * x ^ (Suc n * 2 + 1) \<le> 1 / real (n * 2 + 1) * x ^ (n * 2 + 1)"
proof -
  have p: "x ^ (Suc n * 2 + 1) \<le> x ^ (n * 2 + 1)"
    using assms by (intro power_decreasing) simp_all
  have q: "1 / real (Suc n * 2 + 1) \<le> 1 / real (n * 2 + 1)"
    by (intro divide_left_mono) simp_all
  have "1 / real (Suc n * 2 + 1) * x ^ (Suc n * 2 + 1) \<le> 1 / real (n * 2 + 1) * x ^ (Suc n * 2 + 1)"
    using q assms by (intro mult_right_mono) simp_all
  also have "\<dots> \<le> 1 / real (n * 2 + 1) * x ^ (n * 2 + 1)"
    using p by (intro mult_left_mono) simp_all
  finally show ?thesis .
qed

lemma arctan_partial_sums:
  fixes x :: real
  assumes "0 \<le> x" "x \<le> 1"
  shows "(\<Sum>i<2 * n. (- 1) ^ i * (1 / real (i * 2 + 1) * x ^ (i * 2 + 1))) \<le> arctan x"
    and "arctan x \<le> (\<Sum>i<2 * n + 1. (- 1) ^ i * (1 / real (i * 2 + 1) * x ^ (i * 2 + 1)))"
proof -
  define a where "a = (\<lambda>n. 1 / real (n * 2 + 1) * x ^ (n * 2 + 1))"
  have ax: "\<bar>x\<bar> \<le> 1" using assms by simp
  have z: "a \<longlonglongrightarrow> 0" unfolding a_def using ax by (rule zeroseq_arctan_series)
  have pos: "0 \<le> a k" for k unfolding a_def using assms by simp
  have mono: "a (Suc k) \<le> a k" for k unfolding a_def using assms by (rule arctan_term_mono)
  have s: "arctan x = (\<Sum>k. (- 1) ^ k * a k)" unfolding a_def using ax by (rule arctan_series)
  have "(\<Sum>i<2 * n. (- 1) ^ i * a i) \<le> arctan x"
    unfolding s using z pos mono by (rule summable_Leibniz'(2))
  then show "(\<Sum>i<2 * n. (- 1) ^ i * (1 / real (i * 2 + 1) * x ^ (i * 2 + 1))) \<le> arctan x"
    by (simp add: a_def)
  have "arctan x \<le> (\<Sum>i<2 * n + 1. (- 1) ^ i * a i)"
    unfolding s using z pos mono by (rule summable_Leibniz'(4))
  then show "arctan x \<le> (\<Sum>i<2 * n + 1. (- 1) ^ i * (1 / real (i * 2 + 1) * x ^ (i * 2 + 1)))"
    by (simp add: a_def)
qed

lemma arctan_fifth_bounds: "(1973955 / 10000000 :: real) < arctan (1 / 5) \<and> arctan (1 / 5) < 1973956 / 10000000"
proof -
  have l: "(\<Sum>i<2 * 2. (- 1) ^ i * (1 / real (i * 2 + 1) * (1 / 5) ^ (i * 2 + 1))) \<le> arctan (1 / 5 :: real)"
    by (rule arctan_partial_sums(1)) simp_all
  have u: "arctan (1 / 5 :: real) \<le> (\<Sum>i<2 * 2 + 1. (- 1) ^ i * (1 / real (i * 2 + 1) * (1 / 5) ^ (i * 2 + 1)))"
    by (rule arctan_partial_sums(2)) simp_all
  have "(1973955 / 10000000 :: real) < (\<Sum>i<2 * 2. (- 1) ^ i * (1 / real (i * 2 + 1) * (1 / 5) ^ (i * 2 + 1)))"
    by (simp add: lessThan_Suc eval_nat_numeral)
  moreover have "(\<Sum>i<2 * 2 + 1. (- 1) ^ i * (1 / real (i * 2 + 1) * (1 / 5) ^ (i * 2 + 1))) < (1973956 / 10000000 :: real)"
    by (simp add: lessThan_Suc eval_nat_numeral)
  ultimately show ?thesis using l u by linarith
qed

lemma arctan_239_bounds: "(41840 / 10000000 :: real) < arctan (1 / 239) \<and> arctan (1 / 239) < 41842 / 10000000"
proof -
  have l: "(\<Sum>i<2 * 1. (- 1) ^ i * (1 / real (i * 2 + 1) * (1 / 239) ^ (i * 2 + 1))) \<le> arctan (1 / 239 :: real)"
    by (rule arctan_partial_sums(1)) simp_all
  have u: "arctan (1 / 239 :: real) \<le> (\<Sum>i<2 * 0 + 1. (- 1) ^ i * (1 / real (i * 2 + 1) * (1 / 239) ^ (i * 2 + 1)))"
    by (rule arctan_partial_sums(2)) simp_all
  have "(41840 / 10000000 :: real) < (\<Sum>i<2 * 1. (- 1) ^ i * (1 / real (i * 2 + 1) * (1 / 239) ^ (i * 2 + 1)))"
    by (simp add: lessThan_Suc eval_nat_numeral)
  moreover have "(\<Sum>i<2 * 0 + 1. (- 1) ^ i * (1 / real (i * 2 + 1) * (1 / 239) ^ (i * 2 + 1))) < (41842 / 10000000 :: real)"
    by (simp add: lessThan_Suc eval_nat_numeral)
  ultimately show ?thesis using l u by linarith
qed

lemma pi_bounds: "3.14159 < pi \<and> pi < 3.1416"
proof -
  have "pi = 16 * arctan (1 / 5) - 4 * arctan (1 / 239)" using machin by simp
  then show ?thesis using arctan_fifth_bounds arctan_239_bounds by simp
qed

lemma sqrt5_bounds: "2.2360679 < sqrt 5 \<and> sqrt 5 < 2.236068"
proof -
  have "(2.2360679 :: real) < sqrt 5" by (rule real_less_rsqrt) (simp add: power2_eq_square)
  moreover have "sqrt 5 < (2.236068 :: real)" by (rule real_less_lsqrt) (simp_all add: power2_eq_square)
  ultimately show ?thesis by simp
qed

lemma golden_bounds: "2.39995 < pi * (3 - sqrt 5) \<and> pi * (3 - sqrt 5) < (2.39997 :: real)"
proof -
  let ?k = "3 - sqrt 5"
  have k: "0.763932 < ?k" "?k < 0.7639321" using sqrt5_bounds by simp_all
  have "2.39995 < 3.14159 * (0.763932 :: real)" by simp
  also have "\<dots> \<le> 3.14159 * ?k" using k by simp
  also have "\<dots> < pi * ?k" using pi_bounds k by (intro mult_strict_right_mono) simp_all
  finally have lo: "2.39995 < pi * ?k" .
  have "pi * ?k < 3.1416 * ?k" using pi_bounds k by (intro mult_strict_right_mono) simp_all
  also have "\<dots> < 3.1416 * (0.7639321 :: real)" using k by simp
  also have "\<dots> < 2.39997" by simp
  finally have hi: "pi * ?k < 2.39997" .
  from lo hi show ?thesis by simp
qed

lemma ornaments_nth:
  "1 \<le> i \<Longrightarrow> i < count \<Longrightarrow> ornaments r1 r2 r3 rnd ! i = mkOrnament i (rnd i)"
  by (cases i) (simp_all add: ornaments_def)

text \<open>
  Claim C9. The golden angle is \<open>pi * (3 - sqrt 5)\<close>, within 0.00001 of 2.39996.
  Entry \<open>i\<close> of the generated list, for \<open>1 \<le> i < 90\<close>, is the ornament made by
  iteration \<open>i\<close>. For every ornament index \<open>i \<ge> 1\<close> the tree target sits at the
  angle \<open>i\<close> times the golden angle, at a radius that falls linearly with the height
  (so a higher ornament of the loop is closer to the axis); the yaw of the tree target
  is the negated placement angle, plus a quarter turn for stars, snowflakes and gold
  trees.
\<close>

theorem golden_spiral_placement:
  "goldenAngle = pi * (3 - sqrt 5) \<and> 2.39995 < goldenAngle \<and> goldenAngle < 2.39997 \<and>
   (1 \<le> i \<and> i < count \<longrightarrow> ornaments r1 r2 r3 rnd ! i = mkOrnament i (rnd i)) \<and>
   (1 \<le> i \<longrightarrow>
      o_treePos (mkOrnament i r) =
        \<lparr>vx = placementRadius (placementHeight i) * cos (real i * goldenAngle),
         vy = placementHeight i,
         vz = placementRadius (placementHeight i) * sin (real i * goldenAngle)\<rparr> \<and>
      ey (o_treeRot (mkOrnament i r)) =
        - (real i * goldenAngle) +
          (if quarterTurnType (o_type (mkOrnament i r)) then pi / 2 else 0)) \<and>
   (1 \<le> i \<and> i < j \<and> j < count \<longrightarrow>
      hdist (o_treePos (mkOrnament i r)) = placementRadius (placementHeight i) \<and>
      hdist (o_treePos (mkOrnament j r')) < hdist (o_treePos (mkOrnament i r)))"
proof -
  have a: "hdist (o_treePos (mkOrnament i r)) = placementRadius (placementHeight i) \<and>
      hdist (o_treePos (mkOrnament j r')) < hdist (o_treePos (mkOrnament i r))"
    if "1 \<le> i" "i < j" "j < count"
  proof -
    have "hdist (o_treePos (mkOrnament i r)) = placementRadius (placementHeight i)"
      using that by (intro mkOrnament_hdist) simp_all
    moreover have "hdist (o_treePos (mkOrnament j r')) = placementRadius (placementHeight j)"
      using that by (intro mkOrnament_hdist) simp_all
    ultimately show ?thesis
      using placementRadius_antimono[OF placementHeight_mono[OF that(2)]] by simp
  qed
  have b: "goldenAngle = pi * (3 - sqrt 5)" by (simp add: goldenAngle_def)
  have c: "2.39995 < goldenAngle \<and> goldenAngle < 2.39997"
    unfolding b by (rule golden_bounds)
  from a b c mkOrnament_treePos[of i r] mkOrnament_yaw[of i r] ornaments_nth[of i r1 r2 r3 rnd]
  show ?thesis by blast
qed

theorem golden_spiral_placement_witness:
  "(1::nat) \<le> 3 \<and> (3::nat) < 4 \<and> 4 < count \<and>
   quarterTurnType (o_type (mkOrnament 3 (sampleDraws 0.56))) \<and>
   \<not> quarterTurnType (o_type (mkOrnament 4 (sampleDraws 0.1))) \<and>
   ornaments 0 0 0 (\<lambda>i. sampleDraws 0.56) ! 3 = mkOrnament 3 (sampleDraws 0.56) \<and>
   vy (o_treePos (mkOrnament 3 (sampleDraws 0.56))) = - 4.6 \<and>
   ey (o_treeRot (mkOrnament 3 (sampleDraws 0.56))) = - (3 * goldenAngle) + pi / 2 \<and>
   ey (o_treeRot (mkOrnament 4 (sampleDraws 0.1))) = - (4 * goldenAngle) \<and>
   hdist (o_treePos (mkOrnament 3 (sampleDraws 0.56))) = 6.805 \<and>
   hdist (o_treePos (mkOrnament 4 (sampleDraws 0.1))) < hdist (o_treePos (mkOrnament 3 (sampleDraws 0.56)))"
proof -
  let ?a = "mkOrnament 3 (sampleDraws 0.56)"
  let ?b = "mkOrnament 4 (sampleDraws 0.1)"
  have t3: "o_type ?a = Some star"
    by (simp add: mkOrnament_type sampleDraws_def pickType_def length_types types_def Let_def)
  have t4: "o_type ?b = Some camera"
    by (simp add: mkOrnament_type sampleDraws_def pickType_def length_types types_def Let_def)
  have pre: "(1::nat) \<le> 3 \<and> (3::nat) < 4 \<and> 4 < count" "(1::nat) \<le> 4" "(3::nat) < count"
    by (simp_all add: count_def)
  note c3 = golden_spiral_placement[where i = 3 and r = "sampleDraws 0.56" and j = 4 and r' = "sampleDraws 0.1"
      and ?r1.0 = 0 and ?r2.0 = 0 and ?r3.0 = 0 and rnd = "\<lambda>i. sampleDraws 0.56"]
  note c4 = golden_spiral_placement[where i = 4 and r = "sampleDraws 0.1" and j = 5 and r' = "sampleDraws 0.1"]
  have o3: "ornaments 0 0 0 (\<lambda>i. sampleDraws 0.56) ! 3 = ?a" using c3 pre by blast
  have y3: "vy (o_treePos ?a) = placementHeight 3" using c3 pre by simp
  have yaw3: "ey (o_treeRot ?a) = - (real 3 * goldenAngle) + pi / 2"
    using c3 pre t3 by (simp add: quarterTurnType_def)
  have yaw4: "ey (o_treeRot ?b) = - (real 4 * goldenAngle)"
    using c4 pre t4 by (simp add: quarterTurnType_def)
  have h3: "hdist (o_treePos ?a) = placementRadius (placementHeight 3)"
    and lt: "hdist (o_treePos ?b) < hdist (o_treePos ?a)"
    using c3 pre by blast+
  have q: "quarterTurnType (o_type ?a)" "\<not> quarterTurnType (o_type ?b)"
    using t3 t4 by (simp_all add: quarterTurnType_def)
  have v: "placementHeight 3 = - 4.6" "placementRadius (placementHeight 3) = 6.805"
    by (simp_all add: placementHeight_def placementRadius_def)
  from pre q o3 y3 yaw3 yaw4 h3 lt v show ?thesis by simp
qed

section \<open>The orchestrator\<close>

lemma effect_close:
  "mode s = INITIAL \<Longrightarrow>
   effect s = s\<lparr>internalMode := INITIAL,
               timers := timers s @ [\<lparr>t_handle = nextHandle s, t_remaining = 500, t_action = CloseLid\<rparr>],
               nextHandle := Suc (nextHandle s), cleanupArg := Some (nextHandle s)\<rparr>"
  by (simp add: effect_def setTimeout_def)

lemma effect_open_delayed:
  "mode s \<noteq> INITIAL \<Longrightarrow> internalMode s = INITIAL \<Longrightarrow>
   effect s = s\<lparr>isBoxOpen := True,
               timers := timers s @ [\<lparr>t_handle = nextHandle s, t_remaining = 350,
                                      t_action = SetInternal (mode s)\<rparr>],
               nextHandle := Suc (nextHandle s), cleanupArg := Some (nextHandle s)\<rparr>"
  by (simp add: effect_def setTimeout_def)

lemma effect_open_direct:
  "mode s \<noteq> INITIAL \<Longrightarrow> internalMode s \<noteq> INITIAL \<Longrightarrow>
   effect s = s\<lparr>isBoxOpen := True, internalMode := mode s, cleanupArg := None\<rparr>"
  by (simp add: effect_def)

lemma clearTimeout_tracked: "tracked s \<Longrightarrow> clearTimeout (cleanupArg s) s = s\<lparr>timers := []\<rparr>"
proof (cases "cleanupArg s")
  case None
  assume "tracked s"
  with None have "timers s = []" by (cases "timers s") (auto simp add: tracked_def)
  with None show ?thesis by (simp add: clearTimeout_def)
next
  case (Some k)
  assume "tracked s"
  with Some have "filter (\<lambda>t. t_handle t \<noteq> k) (timers s) = []"
    by (auto simp add: tracked_def filter_empty_conv)
  with Some show ?thesis by (simp add: clearTimeout_def)
qed

lemma rerender_changed:
  "tracked s \<Longrightarrow> lastDeps s \<noteq> Some (mode s, internalMode s) \<Longrightarrow>
   rerender s = effect (s\<lparr>timers := [], lastDeps := Some (mode s, internalMode s)\<rparr>)"
  by (simp add: rerender_def clearTimeout_tracked)

lemma rerender_same: "lastDeps s = Some (mode s, internalMode s) \<Longrightarrow> rerender s = s"
  by (simp add: rerender_def)

lemma settled_tracked: "settled s \<Longrightarrow> tracked s"
  by (cases "timers s") (auto simp add: settled_def tracked_def split: list.splits)

lemma settled_mounted: "settled mounted"
  by (simp add: mounted_def unmounted_def commit_def rerender_def effect_def setTimeout_def
      clearTimeout_def settled_def Let_def)

lemma setMode_same: "settled s \<Longrightarrow> setMode (mode s) s = s"
  by (simp add: setMode_def commit_def rerender_same settled_def)

lemma setMode_close:
  assumes "settled s" "mode s \<noteq> INITIAL"
  shows "mode (setMode INITIAL s) = INITIAL \<and> internalMode (setMode INITIAL s) = INITIAL \<and>
         isBoxOpen (setMode INITIAL s) = isBoxOpen s \<and>
         lastDeps (setMode INITIAL s) = Some (INITIAL, INITIAL) \<and>
         pendingOnly CloseLid 500 (nextHandle s) (setMode INITIAL s)"
proof -
  let ?s1 = "s\<lparr>mode := INITIAL\<rparr>"
  have t1: "tracked ?s1" using settled_tracked[OF assms(1)] by (simp add: tracked_def)
  have d1: "lastDeps ?s1 \<noteq> Some (mode ?s1, internalMode ?s1)"
    using assms by (simp add: settled_def)
  let ?s2 = "rerender ?s1"
  have s2: "?s2 = ?s1\<lparr>timers := [\<lparr>t_handle = nextHandle s, t_remaining = 500, t_action = CloseLid\<rparr>],
                     lastDeps := Some (INITIAL, internalMode s), internalMode := INITIAL,
                     nextHandle := Suc (nextHandle s), cleanupArg := Some (nextHandle s)\<rparr>"
    by (simp add: rerender_changed[OF t1 d1] effect_close)
  show ?thesis
  proof (cases "internalMode s = INITIAL")
    case True
    then have "rerender ?s2 = ?s2" by (simp add: s2 rerender_same)
    with True show ?thesis by (simp add: setMode_def commit_def s2 pendingOnly_def)
  next
    case False
    have t2: "tracked ?s2" by (simp add: s2 tracked_def)
    have d2: "lastDeps ?s2 \<noteq> Some (mode ?s2, internalMode ?s2)" using False by (simp add: s2)
    show ?thesis
      unfolding setMode_def commit_def rerender_changed[OF t2 d2]
      by (simp add: s2 effect_close pendingOnly_def)
  qed
qed

lemma setMode_open_delayed:
  assumes "settled s" "m \<noteq> INITIAL" "m \<noteq> mode s" "internalMode s = INITIAL"
  shows "mode (setMode m s) = m \<and> internalMode (setMode m s) = INITIAL \<and>
         isBoxOpen (setMode m s) \<and> lastDeps (setMode m s) = Some (m, INITIAL) \<and>
         pendingOnly (SetInternal m) 350 (nextHandle s) (setMode m s)"
proof -
  let ?s1 = "s\<lparr>mode := m\<rparr>"
  have t1: "tracked ?s1" using settled_tracked[OF assms(1)] by (simp add: tracked_def)
  have d1: "lastDeps ?s1 \<noteq> Some (mode ?s1, internalMode ?s1)"
    using assms by (simp add: settled_def)
  let ?s2 = "rerender ?s1"
  have s2: "?s2 = ?s1\<lparr>timers := [\<lparr>t_handle = nextHandle s, t_remaining = 350,
                                     t_action = SetInternal m\<rparr>],
                     lastDeps := Some (m, INITIAL), isBoxOpen := True,
                     nextHandle := Suc (nextHandle s), cleanupArg := Some (nextHandle s)\<rparr>"
    using assms by (simp add: rerender_changed[OF t1 d1] effect_open_delayed)
  have "rerender ?s2 = ?s2" using assms by (simp add: s2 rerender_same)
  then show ?thesis using assms by (simp add: setMode_def commit_def s2 pendingOnly_def)
qed

lemma setMode_open_direct:
  assumes "settled s" "m \<noteq> INITIAL" "m \<noteq> mode s" "internalMode s \<noteq> INITIAL"
  shows "mode (setMode m s) = m \<and> internalMode (setMode m s) = m \<and>
         isBoxOpen (setMode m s) \<and> lastDeps (setMode m s) = Some (m, m) \<and>
         timers (setMode m s) = []"
proof -
  let ?s1 = "s\<lparr>mode := m\<rparr>"
  have t1: "tracked ?s1" using settled_tracked[OF assms(1)] by (simp add: tracked_def)
  have d1: "lastDeps ?s1 \<noteq> Some (mode ?s1, internalMode ?s1)"
    using assms by (simp add: settled_def)
  have im: "internalMode s = mode s"
    using assms by (cases "timers s") (auto simp add: settled_def split: list.splits if_splits)
  let ?s2 = "rerender ?s1"
  have s2: "?s2 = ?s1\<lparr>timers := [], lastDeps := Some (m, internalMode s), isBoxOpen := True,
                     internalMode := m, cleanupArg := None\<rparr>"
    using assms by (simp add: rerender_changed[OF t1 d1] effect_open_direct)
  have t2: "tracked ?s2" by (simp add: s2 tracked_def)
  have d2: "lastDeps ?s2 \<noteq> Some (mode ?s2, internalMode ?s2)" using assms im by (simp add: s2)
  show ?thesis
    unfolding setMode_def commit_def rerender_changed[OF t2 d2]
    using assms by (simp add: s2 effect_open_direct)
qed

lemma settled_setMode: "settled s \<Longrightarrow> settled (setMode m s)"
proof -
  assume st: "settled s"
  consider "m = mode s" | "m \<noteq> mode s" "m = INITIAL"
    | "m \<noteq> mode s" "m \<noteq> INITIAL" "internalMode s = INITIAL"
    | "m \<noteq> mode s" "m \<noteq> INITIAL" "internalMode s \<noteq> INITIAL" by blast
  then show ?thesis
  proof cases
    case 1
    then show ?thesis using st by (simp add: setMode_same)
  next
    case 2
    then show ?thesis using setMode_close[OF st]
      by (auto simp add: settled_def pendingOnly_def)
  next
    case 3
    then show ?thesis using setMode_open_delayed[OF st, of m]
      by (auto simp add: settled_def pendingOnly_def)
  next
    case 4
    then show ?thesis using setMode_open_direct[OF st, of m]
      by (auto simp add: settled_def)
  qed
qed

lemma effect_fields:
  "mode (effect s) = mode s \<and> lastDeps (effect s) = lastDeps s \<and>
   internalMode (effect s) =
     (if mode s = INITIAL \<or> internalMode s = INITIAL then INITIAL else mode s)"
  by (simp add: effect_def setTimeout_def)

lemma clearTimeout_fields:
  "mode (clearTimeout h s) = mode s \<and> internalMode (clearTimeout h s) = internalMode s \<and>
   lastDeps (clearTimeout h s) = lastDeps s"
  by (simp add: clearTimeout_def split: option.splits)

lemma rerender_fields:
  "mode (rerender s) = mode s \<and>
   (lastDeps s \<noteq> Some (mode s, internalMode s) \<longrightarrow>
      lastDeps (rerender s) = Some (mode s, internalMode s) \<and>
      internalMode (rerender s) =
        (if mode s = INITIAL \<or> internalMode s = INITIAL then INITIAL else mode s))"
  by (simp add: rerender_def effect_fields clearTimeout_fields)

lemma rerender_commit: "rerender (commit s) = commit s"
proof (cases "lastDeps s = Some (mode s, internalMode s)")
  case True
  then show ?thesis by (simp add: commit_def rerender_same)
next
  case False
  note f1 = rerender_fields[of s]
  show ?thesis
  proof (cases "lastDeps (rerender s) = Some (mode (rerender s), internalMode (rerender s))")
    case True
    then show ?thesis by (simp add: commit_def rerender_same)
  next
    case c2: False
    note f2 = rerender_fields[of "rerender s"]
    have "lastDeps (commit s) = Some (mode (commit s), internalMode (commit s))"
      using False c2 f1 f2 by (simp add: commit_def split: if_splits)
    then show ?thesis by (rule rerender_same)
  qed
qed

lemma scene_timers_same: "timers s = ts \<Longrightarrow> s\<lparr>timers := ts\<rparr> = s"
  by (cases s) simp

lemma msTick_idle: "timers s = [] \<Longrightarrow> msTick s = s"
  by (simp add: msTick_def scene_timers_same)

lemma msTick_count:
  "timers s = [t] \<Longrightarrow> 1 < t_remaining t \<Longrightarrow>
   msTick s = s\<lparr>timers := [t\<lparr>t_remaining := t_remaining t - 1\<rparr>]\<rparr>"
  by (simp add: msTick_def)

lemma msTick_fire:
  "timers s = [t] \<Longrightarrow> t_remaining t = 1 \<Longrightarrow>
   msTick s = commit (runCallback (t_action t) (s\<lparr>timers := []\<rparr>))"
  by (simp add: msTick_def fireDue_def)

lemma elapse_add: "elapse (a + b) s = elapse b (elapse a s)"
  by (induction a arbitrary: s) simp_all

lemma elapse_idle: "timers s = [] \<Longrightarrow> elapse d s = s"
  by (induction d) (simp_all add: msTick_idle)

lemma elapse_before:
  "timers s = [t] \<Longrightarrow> d < t_remaining t \<Longrightarrow>
   elapse d s = s\<lparr>timers := [t\<lparr>t_remaining := t_remaining t - d\<rparr>]\<rparr>"
proof (induction d arbitrary: s t)
  case 0
  then show ?case by (simp add: scene_timers_same)
next
  case (Suc d)
  let ?t = "t\<lparr>t_remaining := t_remaining t - 1\<rparr>"
  have "msTick s = s\<lparr>timers := [?t]\<rparr>" using Suc.prems by (simp add: msTick_count)
  moreover have "elapse d (s\<lparr>timers := [?t]\<rparr>) =
      (s\<lparr>timers := [?t]\<rparr>)\<lparr>timers := [?t\<lparr>t_remaining := t_remaining ?t - d\<rparr>]\<rparr>"
    using Suc.prems by (intro Suc.IH) simp_all
  ultimately show ?case by simp
qed

lemma elapse_at:
  assumes "timers s = [t]" "0 < t_remaining t"
  shows "elapse (t_remaining t) s = commit (runCallback (t_action t) (s\<lparr>timers := []\<rparr>))"
proof -
  let ?r = "t_remaining t"
  let ?t = "t\<lparr>t_remaining := 1\<rparr>"
  have "elapse (?r - 1) s = s\<lparr>timers := [?t]\<rparr>"
    using assms elapse_before[of s t "?r - 1"] by simp
  moreover have "msTick (s\<lparr>timers := [?t]\<rparr>) = commit (runCallback (t_action t) (s\<lparr>timers := []\<rparr>))"
    by (simp add: msTick_fire)
  moreover have "elapse ?r s = elapse 1 (elapse (?r - 1) s)"
    using assms elapse_add[of "?r - 1" 1 s] by simp
  ultimately show ?thesis by simp
qed

lemma fire_close:
  assumes "lastDeps s = Some (mode s, internalMode s)"
  shows "commit (runCallback CloseLid (s\<lparr>timers := []\<rparr>)) = s\<lparr>timers := [], isBoxOpen := False\<rparr>"
  using assms by (simp add: commit_def runCallback_def rerender_same)

lemma fire_open:
  assumes "lastDeps s = Some (m, INITIAL)" "mode s = m" "m \<noteq> INITIAL"
  shows "commit (runCallback (SetInternal m) (s\<lparr>timers := []\<rparr>)) =
         s\<lparr>timers := [], internalMode := m, isBoxOpen := True, cleanupArg := None,
           lastDeps := Some (m, m)\<rparr>"
proof -
  let ?s1 = "s\<lparr>timers := [], internalMode := m\<rparr>"
  have t1: "tracked ?s1" by (simp add: tracked_def)
  have d1: "lastDeps ?s1 \<noteq> Some (mode ?s1, internalMode ?s1)" using assms by simp
  have r1: "rerender ?s1 = s\<lparr>timers := [], internalMode := m, isBoxOpen := True,
                              cleanupArg := None, lastDeps := Some (m, m)\<rparr>"
    using assms by (simp add: rerender_changed[OF t1 d1] effect_open_direct)
  have "rerender (rerender ?s1) = rerender ?s1"
    using assms by (simp add: r1 rerender_same)
  then show ?thesis by (simp add: commit_def runCallback_def r1)
qed

lemma settled_msTick: "settled s \<Longrightarrow> settled (msTick s)"
proof -
  assume st: "settled s"
  show ?thesis
  proof (cases "timers s")
    case Nil
    then show ?thesis using st by (simp add: msTick_idle)
  next
    case (Cons t ts)
    with st have ts: "timers s = [t]" by (cases ts) (simp_all add: settled_def)
    show ?thesis
    proof (cases "t_remaining t = 1")
      case False
      with st ts have "1 < t_remaining t" by (simp add: settled_def)
      with st ts show ?thesis by (auto simp add: msTick_count settled_def split: if_splits)
    next
      case True
      show ?thesis
      proof (cases "mode s = INITIAL")
        case mi: True
        with st ts have "t_action t = CloseLid" "lastDeps s = Some (mode s, internalMode s)"
          by (simp_all add: settled_def)
        with st ts True mi show ?thesis by (simp add: msTick_fire fire_close settled_def)
      next
        case mi: False
        with st ts have "t_action t = SetInternal (mode s)" "lastDeps s = Some (mode s, INITIAL)"
          by (simp_all add: settled_def)
        with st ts True mi show ?thesis by (simp add: msTick_fire fire_open settled_def)
      qed
    qed
  qed
qed

lemma settled_elapse: "settled s \<Longrightarrow> settled (elapse d s)"
  by (induction d arbitrary: s) (simp_all add: settled_msTick)

lemma settled_step: "settled s \<Longrightarrow> settled (step e s)"
  by (cases e) (simp_all add: settled_setMode settled_elapse)

lemma settled_fold: "settled s \<Longrightarrow> settled (fold step es s)"
  by (induction es arbitrary: s) (simp_all add: settled_step)

lemma settled_run: "settled (run es mounted)"
  by (simp add: run_def settled_fold settled_mounted)

lemma settled_cases:
  assumes "settled s"
  shows "(timers s = [] \<and> (if mode s = INITIAL then internalMode s = INITIAL \<and> \<not> isBoxOpen s
                             else internalMode s = mode s \<and> isBoxOpen s))
       \<or> (\<exists>t. timers s = [t] \<and> internalMode s = INITIAL)"
  using assms by (cases "timers s") (auto simp add: settled_def split: list.splits)

lemma settled_lid: "settled s \<Longrightarrow> internalMode s \<noteq> INITIAL \<Longrightarrow> isBoxOpen s"
  using settled_cases[of s] by (auto split: if_splits)

lemma settled_lid_mode: "settled s \<Longrightarrow> mode s \<noteq> INITIAL \<Longrightarrow> isBoxOpen s"
  by (cases "timers s") (auto simp add: settled_def split: list.splits if_splits)

lemma open_after_delay:
  assumes "lastDeps s = Some (m, INITIAL)" "mode s = m" "m \<noteq> INITIAL" "internalMode s = INITIAL"
    "pendingOnly (SetInternal m) 350 lo s"
  shows "(\<forall>d<350. internalMode (elapse d s) = INITIAL) \<and> (\<forall>d\<ge>350. internalMode (elapse d s) = m)"
proof -
  from assms(5) obtain h where
    ts: "timers s = [\<lparr>t_handle = h, t_remaining = 350, t_action = SetInternal m\<rparr>]"
    by (auto simp add: pendingOnly_def)
  let ?t = "\<lparr>t_handle = h, t_remaining = 350, t_action = SetInternal m\<rparr>"
  have before: "internalMode (elapse d s) = INITIAL" if "d < 350" for d
    using elapse_before[OF ts, of d] that assms(4) by simp
  have at: "elapse 350 s = s\<lparr>timers := [], internalMode := m, isBoxOpen := True,
                              cleanupArg := None, lastDeps := Some (m, m)\<rparr>"
    using elapse_at[OF ts] fire_open[OF assms(1-3)] by simp
  have after: "internalMode (elapse d s) = m" if "350 \<le> d" for d
  proof -
    have "elapse d s = elapse (d - 350) (elapse 350 s)"
      using that elapse_add[of 350 "d - 350" s] by simp
    also have "\<dots> = elapse 350 s" by (rule elapse_idle) (simp add: at)
    finally show ?thesis by (simp add: at)
  qed
  from before after show ?thesis by blast
qed

lemma close_after_delay:
  assumes "lastDeps s = Some (mode s, internalMode s)" "pendingOnly CloseLid 500 lo s"
  shows "(\<forall>d<500. isBoxOpen (elapse d s) = isBoxOpen s) \<and> (\<forall>d\<ge>500. \<not> isBoxOpen (elapse d s))"
proof -
  from assms(2) obtain h where
    ts: "timers s = [\<lparr>t_handle = h, t_remaining = 500, t_action = CloseLid\<rparr>]"
    by (auto simp add: pendingOnly_def)
  have before: "isBoxOpen (elapse d s) = isBoxOpen s" if "d < 500" for d
    using elapse_before[OF ts, of d] that by simp
  have at: "elapse 500 s = s\<lparr>timers := [], isBoxOpen := False\<rparr>"
    using elapse_at[OF ts] fire_close[OF assms(1)] by simp
  have after: "\<not> isBoxOpen (elapse d s)" if "500 \<le> d" for d
  proof -
    have "elapse d s = elapse (d - 500) (elapse 500 s)"
      using that elapse_add[of 500 "d - 500" s] by simp
    also have "\<dots> = elapse 500 s" by (rule elapse_idle) (simp add: at)
    finally show ?thesis by (simp add: at)
  qed
  from before after show ?thesis by blast
qed

lemma mounted_eq:
  "mounted = \<lparr>mode = INITIAL, internalMode = INITIAL, isBoxOpen = False,
      timers = [\<lparr>t_handle = 0, t_remaining = 500, t_action = CloseLid\<rparr>],
      nextHandle = 1, cleanupArg = Some 0, lastDeps = Some (INITIAL, INITIAL)\<rparr>"
  by (simp add: mounted_def unmounted_def commit_def rerender_def effect_def setTimeout_def
      clearTimeout_def Let_def)

lemma run_Nil: "run [] s = s"
  by (simp add: run_def)

lemma superseded:
  assumes "settled s" "m \<noteq> mode s" "t \<in> set (timers s)"
  shows "t_handle t \<notin> t_handle ` set (timers (setMode m s))"
proof -
  from assms(1,3) have old: "t_handle t < nextHandle s"
    by (cases "timers s") (auto simp add: settled_def split: list.splits)
  consider "m = INITIAL" "mode s \<noteq> INITIAL"
    | "m \<noteq> INITIAL" "internalMode s = INITIAL"
    | "m \<noteq> INITIAL" "internalMode s \<noteq> INITIAL" using assms(2) by metis
  then show ?thesis
  proof cases
    case 1
    with setMode_close[OF assms(1)] old show ?thesis by (auto simp add: pendingOnly_def)
  next
    case 2
    with setMode_open_delayed[OF assms(1) _ assms(2)] old show ?thesis
      by (auto simp add: pendingOnly_def)
  next
    case 3
    with setMode_open_direct[OF assms(1) _ assms(2)] show ?thesis by simp
  qed
qed

lemma debounce_run:
  assumes "d < 350"
  shows "internalMode (run [Request SCATTERED, Wait d, Request TREE, Wait e] mounted) =
         (if e < 350 then INITIAL else TREE)"
proof -
  let ?s1 = "setMode SCATTERED mounted"
  have m0: "mode mounted = INITIAL" "internalMode mounted = INITIAL" by (simp_all add: mounted_eq)
  have s1: "mode ?s1 = SCATTERED \<and> internalMode ?s1 = INITIAL \<and> isBoxOpen ?s1 \<and>
      lastDeps ?s1 = Some (SCATTERED, INITIAL) \<and>
      pendingOnly (SetInternal SCATTERED) 350 (nextHandle mounted) ?s1"
    using setMode_open_delayed[OF settled_mounted, of SCATTERED] m0 by simp
  then obtain h where ts: "timers ?s1 = [\<lparr>t_handle = h, t_remaining = 350, t_action = SetInternal SCATTERED\<rparr>]"
    by (auto simp add: pendingOnly_def)
  let ?s2 = "elapse d ?s1"
  have s2: "mode ?s2 = SCATTERED" "internalMode ?s2 = INITIAL"
    using elapse_before[OF ts, of d] assms s1 by simp_all
  have st2: "settled ?s2" by (intro settled_elapse settled_setMode settled_mounted)
  let ?s3 = "setMode TREE ?s2"
  have s3: "mode ?s3 = TREE \<and> internalMode ?s3 = INITIAL \<and> isBoxOpen ?s3 \<and>
      lastDeps ?s3 = Some (TREE, INITIAL) \<and>
      pendingOnly (SetInternal TREE) 350 (nextHandle ?s2) ?s3"
    using setMode_open_delayed[OF st2, of TREE] s2 by simp
  then have "(\<forall>d<350. internalMode (elapse d ?s3) = INITIAL) \<and>
      (\<forall>d\<ge>350. internalMode (elapse d ?s3) = TREE)"
    by (intro open_after_delay[where lo = "nextHandle ?s2"]) simp_all
  then have "internalMode (elapse e ?s3) = (if e < 350 then INITIAL else TREE)"
    by (cases "e < 350") simp_all
  then show ?thesis by (simp add: run_def)
qed

lemma msTick_cases:
  assumes "settled s"
  shows "msTick s = s
    \<or> (\<exists>t. timers s = [t] \<and> 1 < t_remaining t \<and>
           msTick s = s\<lparr>timers := [t\<lparr>t_remaining := t_remaining t - 1\<rparr>]\<rparr>)
    \<or> (\<exists>t. timers s = [t] \<and> t_remaining t = 1 \<and> mode s = INITIAL \<and>
           msTick s = s\<lparr>timers := [], isBoxOpen := False\<rparr>)
    \<or> (\<exists>t. timers s = [t] \<and> t_remaining t = 1 \<and> mode s \<noteq> INITIAL \<and>
           msTick s = s\<lparr>timers := [], internalMode := mode s, isBoxOpen := True,
                         cleanupArg := None, lastDeps := Some (mode s, mode s)\<rparr>)"
proof (cases "timers s")
  case Nil
  then show ?thesis by (simp add: msTick_idle)
next
  case (Cons t ts)
  with assms have ts: "timers s = [t]" by (cases ts) (simp_all add: settled_def)
  show ?thesis
  proof (cases "t_remaining t = 1")
    case False
    with assms ts have "1 < t_remaining t" by (simp add: settled_def)
    with ts show ?thesis by (simp add: msTick_count)
  next
    case True
    show ?thesis
    proof (cases "mode s = INITIAL")
      case mi: True
      with assms ts have "t_action t = CloseLid" "lastDeps s = Some (mode s, internalMode s)"
        by (simp_all add: settled_def)
      with ts True mi show ?thesis by (simp add: msTick_fire fire_close)
    next
      case mi: False
      with assms ts have "t_action t = SetInternal (mode s)" "lastDeps s = Some (mode s, INITIAL)"
        by (simp_all add: settled_def)
      with ts True mi show ?thesis by (simp add: msTick_fire fire_open)
    qed
  qed
qed

lemma mode_msTick: "settled s \<Longrightarrow> mode (msTick s) = mode s"
  using msTick_cases[of s] by auto

lemma mode_elapse: "settled s \<Longrightarrow> mode (elapse n s) = mode s"
  by (induction n arbitrary: s) (simp_all add: mode_msTick settled_msTick)

lemma closed_msTick:
  "settled s \<Longrightarrow> mode s = INITIAL \<Longrightarrow> internalMode (msTick s) = internalMode s"
  using msTick_cases[of s] by auto

lemma closed_elapse:
  "settled s \<Longrightarrow> mode s = INITIAL \<Longrightarrow> internalMode (elapse n s) = internalMode s"
  by (induction n arbitrary: s) (simp_all add: closed_msTick mode_msTick settled_msTick)

lemma run_Cons: "run (e # es) s = run es (step e s)"
  by (simp add: run_def)

lemma notYetOpen_mono: "notYetOpen r s \<Longrightarrow> r' \<le> r \<Longrightarrow> notYetOpen r' s"
  by (auto simp add: notYetOpen_def)

lemma notYetOpen_setMode:
  assumes "notYetOpen r s" "r \<le> 350"
  shows "notYetOpen r (setMode m s)"
proof -
  from assms have st: "settled s" and im: "internalMode s = INITIAL"
    by (simp_all add: notYetOpen_def)
  consider "m = mode s" | "m \<noteq> mode s" "m = INITIAL" | "m \<noteq> mode s" "m \<noteq> INITIAL" by blast
  then show ?thesis
  proof cases
    case 1
    with assms st show ?thesis by (simp add: setMode_same)
  next
    case 2
    with setMode_close[OF st] settled_setMode[OF st, of m] show ?thesis
      by (simp add: notYetOpen_def)
  next
    case 3
    with setMode_open_delayed[OF st _ _ im, of m] settled_setMode[OF st, of m] assms(2)
    show ?thesis by (auto simp add: notYetOpen_def pendingOnly_def)
  qed
qed

lemma notYetOpen_elapse:
  assumes "notYetOpen r s" "n < r"
  shows "notYetOpen (r - n) (elapse n s)"
proof -
  from assms have st: "settled s" and im: "internalMode s = INITIAL"
    by (simp_all add: notYetOpen_def)
  note st' = settled_elapse[OF st, of n]
  show ?thesis
  proof (cases "mode s = INITIAL")
    case True
    with st st' im show ?thesis by (simp add: notYetOpen_def mode_elapse closed_elapse)
  next
    case False
    with assms obtain t where t: "timers s = [t]" "r \<le> t_remaining t"
      by (auto simp add: notYetOpen_def)
    with assms(2) have "elapse n s = s\<lparr>timers := [t\<lparr>t_remaining := t_remaining t - n\<rparr>]\<rparr>"
      by (intro elapse_before) simp_all
    with st' im t show ?thesis by (auto simp add: notYetOpen_def)
  qed
qed

lemma notYetOpen_run:
  "notYetOpen r s \<Longrightarrow> r \<le> 350 \<Longrightarrow> waits es < r \<Longrightarrow> internalMode (run es s) = INITIAL"
proof (induction es arbitrary: r s)
  case Nil
  then show ?case by (simp add: run_Nil notYetOpen_def)
next
  case (Cons e es)
  show ?case
  proof (cases e)
    case (Request m)
    with Cons.prems have "notYetOpen r (step e s)" "waits es < r"
      by (simp_all add: notYetOpen_setMode)
    with Cons.IH[of r "step e s"] Cons.prems(2) show ?thesis by (simp add: run_Cons)
  next
    case (Wait n)
    with Cons.prems have "notYetOpen (r - n) (step e s)" "waits es < r - n" "r - n \<le> 350"
      by (simp_all add: notYetOpen_elapse)
    with Cons.IH[of "r - n" "step e s"] show ?thesis by (simp add: run_Cons)
  qed
qed

lemma stillOpen_setMode:
  assumes "stillOpen r s" "r \<le> 500"
  shows "stillOpen r (setMode m s)"
proof -
  from assms have st: "settled s" and lid: "isBoxOpen s" by (simp_all add: stillOpen_def)
  note st' = settled_setMode[OF st, of m]
  consider "m = mode s" | "m \<noteq> mode s" "m = INITIAL"
    | "m \<noteq> mode s" "m \<noteq> INITIAL" "internalMode s = INITIAL"
    | "m \<noteq> mode s" "m \<noteq> INITIAL" "internalMode s \<noteq> INITIAL" by blast
  then show ?thesis
  proof cases
    case 1
    with assms st show ?thesis by (simp add: setMode_same)
  next
    case 2
    with setMode_close[OF st] st' lid assms(2) show ?thesis
      by (auto simp add: stillOpen_def pendingOnly_def)
  next
    case 3
    with setMode_open_delayed[OF st, of m] st' show ?thesis by (simp add: stillOpen_def)
  next
    case 4
    with setMode_open_direct[OF st, of m] st' show ?thesis by (simp add: stillOpen_def)
  qed
qed

lemma stillOpen_elapse:
  assumes "stillOpen r s" "n < r"
  shows "stillOpen (r - n) (elapse n s)"
proof -
  from assms have st: "settled s" and lid: "isBoxOpen s" by (simp_all add: stillOpen_def)
  note st' = settled_elapse[OF st, of n]
  show ?thesis
  proof (cases "mode s = INITIAL")
    case False
    then have "mode (elapse n s) \<noteq> INITIAL" using st by (simp add: mode_elapse)
    with st' show ?thesis by (simp add: stillOpen_def settled_lid_mode)
  next
    case True
    with assms obtain t where t: "timers s = [t]" "r \<le> t_remaining t"
      by (auto simp add: stillOpen_def)
    with assms(2) have "elapse n s = s\<lparr>timers := [t\<lparr>t_remaining := t_remaining t - n\<rparr>]\<rparr>"
      by (intro elapse_before) simp_all
    with st' lid t show ?thesis by (auto simp add: stillOpen_def)
  qed
qed

lemma stillOpen_run:
  "stillOpen r s \<Longrightarrow> r \<le> 500 \<Longrightarrow> waits es < r \<Longrightarrow> isBoxOpen (run es s)"
proof (induction es arbitrary: r s)
  case Nil
  then show ?case by (simp add: run_Nil stillOpen_def)
next
  case (Cons e es)
  show ?case
  proof (cases e)
    case (Request m)
    with Cons.prems have "stillOpen r (step e s)" "waits es < r"
      by (simp_all add: stillOpen_setMode)
    with Cons.IH[of r "step e s"] Cons.prems(2) show ?thesis by (simp add: run_Cons)
  next
    case (Wait n)
    with Cons.prems have "stillOpen (r - n) (step e s)" "waits es < r - n" "r - n \<le> 500"
      by (simp_all add: stillOpen_elapse)
    with Cons.IH[of "r - n" "step e s"] show ?thesis by (simp add: run_Cons)
  qed
qed

text \<open>
  Claim C4. In every run from the mounted scene, when the requested mode changes to
  \<open>SCATTERED\<close> or \<open>TREE\<close> the lid is open at once. If the internal mode was
  \<open>INITIAL\<close>, it stays \<open>INITIAL\<close> for every waiting time below 350 ms and is the
  requested mode for every waiting time from 350 ms on; and whatever is requested in
  between, it is \<open>INITIAL\<close> at the end of every continuation that waits less than
  350 ms in total. If it was not \<open>INITIAL\<close>, it is the requested mode at once.
\<close>

theorem opening_sequence:
  "m \<noteq> INITIAL \<and> m \<noteq> mode (run es mounted) \<longrightarrow>
     isBoxOpen (setMode m (run es mounted)) \<and>
     (internalMode (run es mounted) = INITIAL \<longrightarrow>
        (\<forall>d<350. internalMode (elapse d (setMode m (run es mounted))) = INITIAL) \<and>
        (\<forall>d\<ge>350. internalMode (elapse d (setMode m (run es mounted))) = m) \<and>
        (\<forall>es'. waits es' < 350 \<longrightarrow>
           internalMode (run es' (setMode m (run es mounted))) = INITIAL)) \<and>
     (internalMode (run es mounted) \<noteq> INITIAL \<longrightarrow>
        internalMode (setMode m (run es mounted)) = m)"
proof (intro impI, elim conjE)
  let ?s = "run es mounted"
  assume m: "m \<noteq> INITIAL" "m \<noteq> mode ?s"
  have st: "settled ?s" by (rule settled_run)
  show "isBoxOpen (setMode m ?s) \<and>
     (internalMode ?s = INITIAL \<longrightarrow>
        (\<forall>d<350. internalMode (elapse d (setMode m ?s)) = INITIAL) \<and>
        (\<forall>d\<ge>350. internalMode (elapse d (setMode m ?s)) = m) \<and>
        (\<forall>es'. waits es' < 350 \<longrightarrow> internalMode (run es' (setMode m ?s)) = INITIAL)) \<and>
     (internalMode ?s \<noteq> INITIAL \<longrightarrow> internalMode (setMode m ?s) = m)"
  proof (cases "internalMode ?s = INITIAL")
    case True
    note d = setMode_open_delayed[OF st m True]
    from d have a: "(\<forall>d<350. internalMode (elapse d (setMode m ?s)) = INITIAL) \<and>
        (\<forall>d\<ge>350. internalMode (elapse d (setMode m ?s)) = m)"
      by (intro open_after_delay[where lo = "nextHandle ?s"]) (use m in simp_all)
    from d have "notYetOpen 350 (setMode m ?s)"
      using settled_setMode[OF st, of m] by (auto simp add: notYetOpen_def pendingOnly_def)
    then have b: "\<forall>es'. waits es' < 350 \<longrightarrow> internalMode (run es' (setMode m ?s)) = INITIAL"
      using notYetOpen_run[of 350] by simp
    from a b d True show ?thesis by simp
  next
    case False
    with setMode_open_direct[OF st m False] show ?thesis by simp
  qed
qed

theorem opening_sequence_witness:
  "SCATTERED \<noteq> INITIAL \<and> SCATTERED \<noteq> mode (run [] mounted) \<and>
   internalMode (run [] mounted) = INITIAL \<and>
   isBoxOpen (setMode SCATTERED (run [] mounted)) \<and>
   internalMode (elapse 349 (setMode SCATTERED (run [] mounted))) = INITIAL \<and>
   internalMode (elapse 350 (setMode SCATTERED (run [] mounted))) = SCATTERED \<and>
   waits [Wait 200, Request TREE, Wait 149] < 350 \<and>
   internalMode (run [Wait 200, Request TREE, Wait 149] (setMode SCATTERED (run [] mounted)))
     = INITIAL \<and>
   TREE \<noteq> mode (run [Request SCATTERED, Wait 350] mounted) \<and>
   internalMode (run [Request SCATTERED, Wait 350] mounted) \<noteq> INITIAL \<and>
   internalMode (setMode TREE (run [Request SCATTERED, Wait 350] mounted)) = TREE"
proof -
  have h1: "SCATTERED \<noteq> INITIAL \<and> SCATTERED \<noteq> mode (run [] mounted)"
    and h2: "internalMode (run [] mounted) = INITIAL"
    by (simp_all add: run_Nil mounted_eq)
  have h3: "TREE \<noteq> INITIAL \<and> TREE \<noteq> mode (run [Request SCATTERED, Wait 350] mounted)"
    and h4: "internalMode (run [Request SCATTERED, Wait 350] mounted) \<noteq> INITIAL"
    by code_simp+
  have n: "(349::nat) < 350" "(350::nat) \<le> 350" "waits [Wait 200, Request TREE, Wait 149] < 350"
    by simp_all
  from opening_sequence[of SCATTERED "[]"] h1 h2 n opening_sequence[of TREE "[Request SCATTERED, Wait 350]"] h3 h4
  show ?thesis by blast
qed

text \<open>
  Claim C5. In every run from the mounted scene, when the requested mode changes to
  \<open>INITIAL\<close> the internal mode is \<open>INITIAL\<close> at once, the lid is still open after
  every waiting time below 500 ms, and it is closed after every waiting time from
  500 ms on; and whatever is requested in between, the lid is open at the end of every
  continuation that waits less than 500 ms in total.
\<close>

theorem closing_sequence:
  "mode (run es mounted) \<noteq> INITIAL \<longrightarrow>
     internalMode (setMode INITIAL (run es mounted)) = INITIAL \<and>
     (\<forall>d<500. isBoxOpen (elapse d (setMode INITIAL (run es mounted)))) \<and>
     (\<forall>d\<ge>500. \<not> isBoxOpen (elapse d (setMode INITIAL (run es mounted)))) \<and>
     (\<forall>es'. waits es' < 500 \<longrightarrow> isBoxOpen (run es' (setMode INITIAL (run es mounted))))"
proof
  let ?s = "run es mounted"
  assume m: "mode ?s \<noteq> INITIAL"
  have st: "settled ?s" by (rule settled_run)
  note c = setMode_close[OF st m]
  have lid: "isBoxOpen ?s" using st m by (rule settled_lid_mode)
  from c have a: "(\<forall>d<500. isBoxOpen (elapse d (setMode INITIAL ?s)) = isBoxOpen (setMode INITIAL ?s))
      \<and> (\<forall>d\<ge>500. \<not> isBoxOpen (elapse d (setMode INITIAL ?s)))"
    by (intro close_after_delay[where lo = "nextHandle ?s"]) simp_all
  from c lid have "stillOpen 500 (setMode INITIAL ?s)"
    using settled_setMode[OF st, of INITIAL] by (auto simp add: stillOpen_def pendingOnly_def)
  then have b: "\<forall>es'. waits es' < 500 \<longrightarrow> isBoxOpen (run es' (setMode INITIAL ?s))"
    using stillOpen_run[of 500] by simp
  from a b c lid show "internalMode (setMode INITIAL ?s) = INITIAL \<and>
     (\<forall>d<500. isBoxOpen (elapse d (setMode INITIAL ?s))) \<and>
     (\<forall>d\<ge>500. \<not> isBoxOpen (elapse d (setMode INITIAL ?s))) \<and>
     (\<forall>es'. waits es' < 500 \<longrightarrow> isBoxOpen (run es' (setMode INITIAL ?s)))" by simp
qed

theorem closing_sequence_witness:
  "mode (run [Request TREE, Wait 400] mounted) \<noteq> INITIAL \<and>
   internalMode (run [Request TREE, Wait 400] mounted) = TREE \<and>
   internalMode (setMode INITIAL (run [Request TREE, Wait 400] mounted)) = INITIAL \<and>
   isBoxOpen (elapse 499 (setMode INITIAL (run [Request TREE, Wait 400] mounted))) \<and>
   \<not> isBoxOpen (elapse 500 (setMode INITIAL (run [Request TREE, Wait 400] mounted))) \<and>
   waits [Wait 300, Request INITIAL, Wait 199] < 500 \<and>
   isBoxOpen (run [Wait 300, Request INITIAL, Wait 199]
     (setMode INITIAL (run [Request TREE, Wait 400] mounted)))"
proof -
  have h1: "mode (run [Request TREE, Wait 400] mounted) \<noteq> INITIAL"
    and h2: "internalMode (run [Request TREE, Wait 400] mounted) = TREE"
    by code_simp+
  have n: "(499::nat) < 500" "(500::nat) \<le> 500" "waits [Wait 300, Request INITIAL, Wait 199] < 500"
    by simp_all
  from closing_sequence[of "[Request TREE, Wait 400]"] h1 h2 n show ?thesis by blast
qed

text \<open>
  Claim C6. In every state of every run at most one timer is pending, and it carries
  the action of the latest request (closing the lid for \<open>INITIAL\<close>, setting the
  internal mode to the requested mode otherwise). A change of the requested mode
  cancels the timer that was pending: its handle is not pending afterwards. In
  particular, \<open>SCATTERED\<close> followed by \<open>TREE\<close> before the 350 ms are over leaves the
  internal mode \<open>INITIAL\<close> until 350 ms after the second request and then makes it
  \<open>TREE\<close>; it is never \<open>SCATTERED\<close>.
\<close>

theorem latest_timer_wins:
  "length (timers (run es mounted)) \<le> 1 \<and>
   (\<forall>t \<in> set (timers (run es mounted)).
      t_action t = (if mode (run es mounted) = INITIAL then CloseLid
                    else SetInternal (mode (run es mounted)))) \<and>
   (\<forall>t \<in> set (timers (run es mounted)). m \<noteq> mode (run es mounted) \<longrightarrow>
      t_handle t \<notin> t_handle ` set (timers (setMode m (run es mounted)))) \<and>
   (\<forall>e. d < 350 \<longrightarrow>
      internalMode (run [Request SCATTERED, Wait d, Request TREE, Wait e] mounted) =
        (if e < 350 then INITIAL else TREE))"
proof -
  let ?s = "run es mounted"
  have st: "settled ?s" by (rule settled_run)
  have a: "length (timers ?s) \<le> 1"
    using st by (cases "timers ?s") (auto simp add: settled_def split: list.splits)
  have b: "\<forall>t \<in> set (timers ?s).
      t_action t = (if mode ?s = INITIAL then CloseLid else SetInternal (mode ?s))"
    using st by (cases "timers ?s") (auto simp add: settled_def split: list.splits if_splits)
  have c: "\<forall>t \<in> set (timers ?s). m \<noteq> mode ?s \<longrightarrow>
      t_handle t \<notin> t_handle ` set (timers (setMode m ?s))"
    using superseded[OF st] by blast
  from a b c debounce_run show ?thesis by blast
qed

theorem latest_timer_wins_witness:
  "(100::nat) < 350 \<and>
   timers (run [Request SCATTERED, Wait 100] mounted) =
     [\<lparr>t_handle = 1, t_remaining = 250, t_action = SetInternal SCATTERED\<rparr>] \<and>
   TREE \<noteq> mode (run [Request SCATTERED, Wait 100] mounted) \<and>
   1 \<notin> t_handle ` set (timers (setMode TREE (run [Request SCATTERED, Wait 100] mounted))) \<and>
   internalMode (run [Request SCATTERED, Wait 100, Request TREE, Wait 349] mounted) = INITIAL \<and>
   internalMode (run [Request SCATTERED, Wait 100, Request TREE, Wait 350] mounted) = TREE"
proof -
  let ?s = "run [Request SCATTERED, Wait 100] mounted"
  have h1: "timers ?s = [\<lparr>t_handle = 1, t_remaining = 250, t_action = SetInternal SCATTERED\<rparr>]"
    and h2: "TREE \<noteq> mode ?s"
    by code_simp+
  note c = latest_timer_wins[of "[Request SCATTERED, Wait 100]" TREE 100]
  have n: "(100::nat) < 350" by simp
  from c h1 h2 have a: "1 \<notin> t_handle ` set (timers (setMode TREE ?s))" by simp
  from c n have b: "\<forall>e. internalMode (run [Request SCATTERED, Wait 100, Request TREE, Wait e] mounted) =
        (if e < 350 then INITIAL else TREE)" by blast
  from b[THEN spec, of 349] b[THEN spec, of 350] a h1 h2 n show ?thesis by simp
qed

text \<open>
  Claim C7. In every state reached from the mounted scene (requested and internal mode
  \<open>INITIAL\<close>, lid closed) by mode requests and waiting, with the timers firing when
  due, an internal mode other than \<open>INITIAL\<close> implies that the lid is open. The
  implication holds in the lag windows too: there the lid is open while the internal
  mode is still \<open>INITIAL\<close>.
\<close>

theorem lid_open_invariant: "internalMode (run es mounted) \<noteq> INITIAL \<longrightarrow> isBoxOpen (run es mounted)"
  using settled_lid[OF settled_run] by blast

theorem lid_open_invariant_witness:
  "internalMode (run [Request SCATTERED, Wait 350] mounted) \<noteq> INITIAL \<and>
   isBoxOpen (run [Request SCATTERED, Wait 350] mounted)"
proof -
  have h: "internalMode (run [Request SCATTERED, Wait 350] mounted) \<noteq> INITIAL" by code_simp
  with lid_open_invariant[of "[Request SCATTERED, Wait 350]"] show ?thesis by blast
qed

end
